theory Spec2Isabelle
  imports Main "HOL-Library.Word"
begin

section \<open>Data model\<close>

text \<open>
  The package keeps its state in package-level variables and in objects reached through
  pointers and channels. The model makes this state explicit: \<open>world\<close> holds the channels
  (addressed by numbers, so that two fields naming one channel name one state) and the
  terminal stream, \<open>clog\<close> adds the registry, the receiver list and a trace of the
  adapter life-cycle calls made by the dispatcher.
\<close>

type_synonym MODE = string

text \<open>
  Modelled from the spec: the declaration of the type \<open>LEVEL\<close> is missing from the sources.
  The sources index a slice with it, so it is an integer type; the spec orders the
  severities Trace, Info, Warn, Error, Fatal, which the comments beside the colour table
  place at the indices 0 to 4.
\<close>
type_synonym LEVEL = int

text \<open>
  Modelled from the spec: the helper \<open>isValidLevel\<close> is missing from the sources. The spec
  calls a severity invalid when it is out of the range of the five severities.
\<close>
definition isValidLevel :: "LEVEL \<Rightarrow> bool" where
  "isValidLevel l \<longleftrightarrow> 0 \<le> l \<and> l \<le> 4"

text \<open>
  Modelled from the spec: the declaration of \<open>Message\<close> is missing from the sources. The
  spec gives a message a severity and a rendered body; these are the two fields the sources
  read, \<open>msg.Level\<close> and \<open>msg.Body\<close>.
\<close>
record Message =
  Level :: LEVEL
  Body :: string

record ConsoleConfig =
  cfg_Level :: LEVEL
  BufferSize :: "64 word"

text \<open>
  A value of the empty interface, as \<open>Init\<close> receives it: a \<open>ConsoleConfig\<close>, the nil
  interface, or a value of another dynamic type (its type name and a rendering of it).
\<close>
datatype iface = VConsoleConfig ConsoleConfig | VNil | VOther string string

text \<open>
  Errors. The declarations of \<open>ErrConfigObject\<close> and \<open>ErrInvalidLevel\<close> are missing
  from the sources; the constructors follow the composite literals that build them:
  \<open>ErrConfigObject\<close> with the expected type name and the value received,
  \<open>ErrInvalidLevel\<close> with no field. The two \<open>fmt.Errorf\<close> calls of \<open>NewLogger\<close> are
  kept structured: the format and its argument.
\<close>
datatype error =
    ErrConfigObject string iface
  | ErrInvalidLevel
  | ErrUnknownMode MODE
  | ErrFailToInitialize error

text \<open>
  A Go channel: capacity, buffered elements (oldest first), the elements of senders
  parked on a full or unbuffered channel (oldest first), and whether it was closed.
  \<open>len(ch)\<close> counts the buffer only.
\<close>
record 'a chan =
  cap :: nat
  buf :: "'a list"
  sendq :: "'a list"
  closed :: bool

definition make_chan :: "nat \<Rightarrow> 'a chan" where
  "make_chan n = \<lparr>cap = n, buf = [], sendq = [], closed = False\<rparr>"

datatype 'a sent = Sent 'a | SendPanic

text \<open>
  \<open>ch <- x\<close>: panics on a closed channel; enters the buffer when there is room;
  otherwise the sender is parked with its element until a receiver takes it.
\<close>
definition chan_send :: "'a \<Rightarrow> 'a chan \<Rightarrow> 'a chan sent" where
  "chan_send x ch =
     (if closed ch then SendPanic
      else if length (buf ch) < cap ch \<and> sendq ch = [] then Sent (ch\<lparr>buf := buf ch @ [x]\<rparr>)
      else Sent (ch\<lparr>sendq := sendq ch @ [x]\<rparr>))"

datatype 'a recv = Recv 'a "'a chan" | RecvClosed | RecvBlock

text \<open>
  \<open><-ch\<close>: takes the oldest buffered element and lets the oldest parked sender fill the
  free slot; with an empty buffer takes the element of the oldest parked sender; on an
  empty closed channel yields the zero value; otherwise blocks.
\<close>
definition chan_recv :: "'a chan \<Rightarrow> 'a recv" where
  "chan_recv ch =
     (case buf ch of
        x # xs \<Rightarrow> Recv x (ch\<lparr>buf := xs @ take 1 (sendq ch), sendq := drop 1 (sendq ch)\<rparr>)
      | [] \<Rightarrow>
         (case sendq ch of
            x # xs \<Rightarrow> Recv x (ch\<lparr>sendq := xs\<rparr>)
          | [] \<Rightarrow> if closed ch then RecvClosed else RecvBlock))"

text \<open>Everything a channel still has to deliver, in the order of delivery.\<close>
definition pending :: "'a chan \<Rightarrow> 'a list" where
  "pending ch = buf ch @ sendq ch"

record world =
  msgChans :: "nat \<Rightarrow> Message chan"
  nextMsgChan :: nat
  quitChans :: "nat \<Rightarrow> unit chan"
  nextQuitChan :: nat
  errChans :: "nat \<Rightarrow> error chan"
  chanLimit :: nat
  out :: "string list"
  outFails :: bool
  noColor :: bool
  now :: string

text \<open>
  \<open>out\<close> is what was written to the terminal stream, one element per write;
  \<open>outFails\<close> says whether the stream rejects writes; \<open>noColor\<close> is the switch of
  the colour library, set when the stream is not a terminal; \<open>now\<close> is the date and time
  header the standard logger puts before a message (the clock is not advanced: no property
  below depends on the time written). A channel reference is a number, or \<open>None\<close> for
  the nil channel. \<open>chanLimit\<close> is the largest capacity with which the runtime makes a
  channel of pointers: the allocation limit less the channel header, divided by the pointer
  size, which is just under \<open>2 ^ 45\<close> on 64-bit Linux and depends on the platform.
\<close>

text \<open>
  How a call ends: it returns a value, panics with a message, or blocks for ever; each with
  the state it leaves.
\<close>
datatype ('a, 's) outcome = Return 'a 's | Panicked string 's | Blocked 's

section \<open>The console adapter\<close>

datatype Attribute = FgBlue | FgGreen | FgYellow | FgRed | FgHiRed

text \<open>
  The escape code of a colour attribute, and the wrapping \<open>SprintFunc\<close> applies unless
  colour is switched off.
\<close>
fun attr_code :: "Attribute \<Rightarrow> string" where
  "attr_code FgBlue = ''34''"
| "attr_code FgGreen = ''32''"
| "attr_code FgYellow = ''33''"
| "attr_code FgRed = ''31''"
| "attr_code FgHiRed = ''91''"

definition SprintFunc :: "Attribute \<Rightarrow> bool \<Rightarrow> string \<Rightarrow> string" where
  "SprintFunc a off s =
     (if off then s else CHR 0x1B # ''['' @ attr_code a @ ''m'' @ s @ CHR 0x1B # ''[0m'')"

definition colors :: "Attribute list" where
  "colors = [FgBlue, FgGreen, FgYellow, FgRed, FgHiRed]"

record console =
  level :: LEVEL
  msgChan :: "nat option"
  quitChan :: "nat option"
  errorChan :: "nat option"

text \<open>
  The standard logger's \<open>Print\<close> with the date and time flags and an empty prefix: one write
  of header, text and a final newline when the text has none. It returns nothing; the
  result of the write is dropped.
\<close>
definition Print :: "string \<Rightarrow> world \<Rightarrow> world" where
  "Print s w =
     (if outFails w then w
      else w\<lparr>out := out w @ [now w @ s @ (if s \<noteq> [] \<and> last s = CHR 0x0A then [] else [CHR 0x0A])]\<rparr>)"

definition newConsole :: "world \<Rightarrow> console \<times> world" where
  "newConsole w =
     (\<lparr>level = 0, msgChan = None, quitChan = Some (nextQuitChan w), errorChan = None\<rparr>,
      w\<lparr>quitChans := (quitChans w)(nextQuitChan w := make_chan 0),
        nextQuitChan := Suc (nextQuitChan w)\<rparr>)"

definition console_Level :: "console \<Rightarrow> LEVEL" where
  "console_Level c = level c"

text \<open>
  \<open>Init\<close>. The result is the error returned (\<open>None\<close> for nil) and the adapter as
  it is afterwards. \<open>make\<close> panics on a negative size and on a size above
  \<open>chanLimit\<close>; running out of memory below that limit is outside the model.
\<close>
definition Init :: "console \<Rightarrow> iface \<Rightarrow> world \<Rightarrow> (error option \<times> console, world) outcome" where
  "Init c v w =
     (case v of
        VConsoleConfig cfg \<Rightarrow>
          if \<not> isValidLevel (cfg_Level cfg) then Return (Some ErrInvalidLevel, c) w
          else if sint (BufferSize cfg) < 0 \<or> int (chanLimit w) < sint (BufferSize cfg)
            then Panicked ''makechan: size out of range'' w
          else Return (None, c\<lparr>level := cfg_Level cfg, msgChan := Some (nextMsgChan w)\<rparr>)
                 (w\<lparr>msgChans := (msgChans w)(nextMsgChan w := make_chan (nat (sint (BufferSize cfg)))),
                    nextMsgChan := Suc (nextMsgChan w)\<rparr>)
      | _ \<Rightarrow> Return (Some (ErrConfigObject ''ConsoleConfig'' v), c) w)"

definition ExchangeChans :: "console \<Rightarrow> nat option \<Rightarrow> console \<times> nat option \<times> nat option" where
  "ExchangeChans c e = (c\<lparr>errorChan := e\<rparr>, msgChan c, quitChan c)"

text \<open>The entry written for a message: header, coloured body, end of line.\<close>
definition entry :: "world \<Rightarrow> Message \<Rightarrow> string" where
  "entry w msg =
     (let s = SprintFunc (colors ! nat (Level msg)) (noColor w) (Body msg)
      in now w @ s @ (if s \<noteq> [] \<and> last s = CHR 0x0A then [] else [CHR 0x0A]))"

text \<open>
  The method \<open>write\<close>: the colour table is indexed by the level of the message,
  unchecked, and the coloured body goes to \<open>Print\<close>.
\<close>
definition console_write :: "console \<Rightarrow> Message \<Rightarrow> world \<Rightarrow> (unit, world) outcome" where
  "console_write c msg w =
     (if 0 \<le> Level msg \<and> Level msg < int (length colors)
      then Return () (Print (SprintFunc (colors ! nat (Level msg)) (noColor w) (Body msg)) w)
      else Panicked ''index out of range'' w)"

lemma console_write_msgChans:
  "console_write c m w = Return u w' \<Longrightarrow> msgChans w' = msgChans w"
  by (auto simp: console_write_def Print_def split: if_splits)

lemma length_pending_recv:
  "chan_recv ch = Recv m ch' \<Longrightarrow> length (pending ch') < length (pending ch)"
  by (auto simp: chan_recv_def pending_def split: list.splits if_splits)

text \<open>
  \<open>Flush\<close>: the loop tests \<open>len(c.msgChan) == 0\<close>, which is 0 for the nil channel, and
  otherwise receives one message and renders it.
\<close>
function Flush :: "console \<Rightarrow> world \<Rightarrow> (unit, world) outcome" where
  "Flush c w =
     (case msgChan c of
        None \<Rightarrow> Return () w
      | Some r \<Rightarrow>
          if length (buf (msgChans w r)) = 0 then Return () w
          else
            (case chan_recv (msgChans w r) of
               Recv m ch \<Rightarrow>
                 (case console_write c m (w\<lparr>msgChans := (msgChans w)(r := ch)\<rparr>) of
                    Return u w' \<Rightarrow> Flush c w'
                  | Panicked p w' \<Rightarrow> Panicked p w'
                  | Blocked w' \<Rightarrow> Blocked w')
             | RecvClosed \<Rightarrow> Panicked ''nil pointer dereference'' w
             | RecvBlock \<Rightarrow> Blocked w))"
  by pat_completeness auto
termination
proof (relation "measure (\<lambda>(c, w). case msgChan c of None \<Rightarrow> 0
                                   | Some r \<Rightarrow> length (pending (msgChans w r)))")
  show "wf (measure (\<lambda>(c, w). case msgChan c of None \<Rightarrow> 0
                                   | Some r \<Rightarrow> length (pending (msgChans w r))))"
    by simp
next
  fix c :: console and w :: world and r m ch u w'
  assume r: "msgChan c = Some r"
    and rc: "chan_recv (msgChans w r) = Recv m ch"
    and wr: "console_write c m (w\<lparr>msgChans := (msgChans w)(r := ch)\<rparr>) = Return u w'"
  from console_write_msgChans [OF wr] have "msgChans w' r = ch" by simp
  with length_pending_recv [OF rc] r
  show "((c, w'), (c, w)) \<in> measure (\<lambda>(c, w). case msgChan c of None \<Rightarrow> 0
                                   | Some r \<Rightarrow> length (pending (msgChans w r)))"
    by simp
qed

declare Flush.simps [simp del]

text \<open>\<open>close(ch)\<close> panics on the nil channel and on a closed channel.\<close>
definition Destroy :: "console \<Rightarrow> world \<Rightarrow> (unit, world) outcome" where
  "Destroy c w =
     (case msgChan c of
        None \<Rightarrow> Panicked ''close of nil channel'' w
      | Some r \<Rightarrow>
          if closed (msgChans w r) then Panicked ''close of closed channel'' w
          else
            (let w1 = w\<lparr>msgChans := (msgChans w)(r := (msgChans w r)\<lparr>closed := True\<rparr>)\<rparr> in
             case quitChan c of
               None \<Rightarrow> Panicked ''close of nil channel'' w1
             | Some q \<Rightarrow>
                 if closed (quitChans w1 q) then Panicked ''close of closed channel'' w1
                 else Return () (w1\<lparr>quitChans := (quitChans w1)(q := (quitChans w1 q)\<lparr>closed := True\<rparr>)\<rparr>)))"

text \<open>
  \<open>Start\<close>. Which ready case a \<open>select\<close> takes is the runtime's choice, so the loop is
  run against the list of these choices, one per iteration. A chosen case that is not ready
  (nothing to receive) is not taken and the loop goes on waiting; when the list is used up
  the loop is parked in its \<open>select\<close>, which is the result \<open>Blocked\<close>. A receive from
  the closed and empty inbound channel yields the nil message, which \<open>write\<close> dereferences.
\<close>
datatype select = CaseMsg | CaseQuit

fun Start :: "console \<Rightarrow> select list \<Rightarrow> world \<Rightarrow> (unit, world) outcome" where
  "Start c [] w = Blocked w"
| "Start c (CaseMsg # es) w =
     (case msgChan c of
        None \<Rightarrow> Start c es w
      | Some r \<Rightarrow>
          (case chan_recv (msgChans w r) of
             Recv m ch \<Rightarrow>
               (case console_write c m (w\<lparr>msgChans := (msgChans w)(r := ch)\<rparr>) of
                  Return u w' \<Rightarrow> Start c es w'
                | Panicked p w' \<Rightarrow> Panicked p w'
                | Blocked w' \<Rightarrow> Blocked w')
           | RecvClosed \<Rightarrow> Panicked ''nil pointer dereference'' w
           | RecvBlock \<Rightarrow> Start c es w))"
| "Start c (CaseQuit # es) w =
     (case quitChan c of
        None \<Rightarrow> Start c es w
      | Some q \<Rightarrow>
          (case chan_recv (quitChans w q) of
             Recv u ch \<Rightarrow> Return () (w\<lparr>quitChans := (quitChans w)(q := ch)\<rparr>)
           | RecvClosed \<Rightarrow> Return () w
           | RecvBlock \<Rightarrow> Start c es w))"

fun state_of :: "('a, 's) outcome \<Rightarrow> 's" where
  "state_of (Return x s) = s"
| "state_of (Panicked p s) = s"
| "state_of (Blocked s) = s"

section \<open>The registry and the dispatcher\<close>

text \<open>
  A factory builds an adapter and may allocate in doing so. The console adapter is the one
  implementation of the \<open>Logger\<close> interface in the sources, so an adapter is a \<open>console\<close>.
  It is reached through a pointer, but it is written only by \<open>Init\<close> and
  \<open>ExchangeChans\<close>, before the pointer is shared; everything that changes afterwards
  lives in the channels.
\<close>
type_synonym Factory = "world \<Rightarrow> console \<times> world"

record receiver =
  Logger :: console
  mode :: MODE
  r_msgChan :: "nat option"
  r_quitChan :: "nat option"

text \<open>
  The calls the dispatcher makes on adapters, and its writes to the receiver list, in the
  order in which it makes them.
\<close>
datatype event =
    EvSignal "nat option"
  | EvFlush console
  | EvDestroy console
  | EvReplace nat
  | EvAppend
  | EvStart console

text \<open>
  \<open>factories\<close> is the Go map: a key is absent, or bound to a function value, which
  may be nil (\<open>None\<close>).
\<close>
record clog =
  factories :: "MODE \<rightharpoonup> Factory option"
  receivers :: "receiver list"
  trace :: "event list"
  env :: world

text \<open>The package-level error channel, made with capacity 5 when the package is loaded.\<close>
definition errorChan0 :: nat where
  "errorChan0 = 0"

text \<open>
  The world when the package is loaded, given the clock, whether the stream fails and
  whether colour is off: the error channel and the package's own quit channel exist, and
  the channel limit is that of 64-bit Linux with a 96-byte channel header.
\<close>
definition init_world :: "string \<Rightarrow> bool \<Rightarrow> bool \<Rightarrow> world" where
  "init_world ts fails off =
     \<lparr>msgChans = (\<lambda>_. make_chan 0), nextMsgChan = 0,
      quitChans = (\<lambda>_. make_chan 0), nextQuitChan = 1,
      errChans = (\<lambda>_. make_chan 5), chanLimit = 2 ^ 45 - 12,
      out = [], outFails = fails, noColor = off, now = ts\<rparr>"

definition init_clog :: "world \<Rightarrow> clog" where
  "init_clog w = \<lparr>factories = Map.empty, receivers = [], trace = [], env = w\<rparr>"

definition Register :: "MODE \<Rightarrow> Factory option \<Rightarrow> clog \<Rightarrow> (unit, clog) outcome" where
  "Register md f s =
     (if f = None then Panicked ''clog: register function is nil'' s
      else if (case factories s md of Some (Some g) \<Rightarrow> True | _ \<Rightarrow> False)
        then Panicked (''clog: register duplicated mode '' @ [CHR 0x27] @ md @ [CHR 0x27]) s
      else Return () (s\<lparr>factories := (factories s)(md \<mapsto> f)\<rparr>))"

text \<open>An outcome of an adapter call, seen from the dispatcher.\<close>
fun lift :: "clog \<Rightarrow> ('a, world) outcome \<Rightarrow> ('a, clog) outcome" where
  "lift s (Return x w) = Return x (s\<lparr>env := w\<rparr>)"
| "lift s (Panicked p w) = Panicked p (s\<lparr>env := w\<rparr>)"
| "lift s (Blocked w) = Blocked (s\<lparr>env := w\<rparr>)"

text \<open>
  \<open>receiver.close\<close>. The send on the unbuffered quit channel blocks for ever on the nil
  channel and panics on a closed one; otherwise it completes when the consume loop of the
  adapter takes the signal, which leaves the channel as it was. Then \<open>Flush\<close>, then
  \<open>Destroy\<close>.
\<close>
definition close :: "receiver \<Rightarrow> clog \<Rightarrow> (unit, clog) outcome" where
  "close r s =
     (case r_quitChan r of
        None \<Rightarrow> Blocked s
      | Some q \<Rightarrow>
          if closed (quitChans (env s) q) then Panicked ''send on closed channel'' s
          else
            (let s1 = s\<lparr>trace := trace s @ [EvSignal (r_quitChan r), EvFlush (Logger r)]\<rparr> in
             case lift s1 (Flush (Logger r) (env s1)) of
               Return u s2 \<Rightarrow>
                 (let s3 = s2\<lparr>trace := trace s2 @ [EvDestroy (Logger r)]\<rparr>
                  in lift s3 (Destroy (Logger r) (env s3)))
             | Panicked p s2 \<Rightarrow> Panicked p s2
             | Blocked s2 \<Rightarrow> Blocked s2))"

text \<open>
  The loop of \<open>NewLogger\<close> over the indices of \<open>receivers\<close>, from index \<open>i\<close> on; the
  value returned is \<open>hasFound\<close>.
\<close>
function replace_loop ::
  "MODE \<Rightarrow> console \<Rightarrow> nat option \<Rightarrow> nat option \<Rightarrow> nat \<Rightarrow> clog \<Rightarrow> (bool, clog) outcome" where
  "replace_loop md logger mc qc i s =
     (if i < length (receivers s) then
        (if mode (receivers s ! i) = md then
           (case close (receivers s ! i) s of
              Return u s' \<Rightarrow>
                Return True
                  (s'\<lparr>receivers := (receivers s')
                        [i := (receivers s' ! i)\<lparr>Logger := logger, r_msgChan := mc, r_quitChan := qc\<rparr>],
                      trace := trace s' @ [EvReplace i]\<rparr>)
            | Panicked p s' \<Rightarrow> Panicked p s'
            | Blocked s' \<Rightarrow> Blocked s')
         else replace_loop md logger mc qc (Suc i) s)
      else Return False s)"
  by pat_completeness auto
termination
  by (relation "measure (\<lambda>(md, logger, mc, qc, i, s). length (receivers s) - i)") auto

declare replace_loop.simps [simp del]

text \<open>
  \<open>NewLogger\<close>. Calling a nil function value panics. The consume loop is started as a
  goroutine: the dispatcher records the start and goes on.
\<close>
definition NewLogger :: "MODE \<Rightarrow> iface \<Rightarrow> clog \<Rightarrow> (error option, clog) outcome" where
  "NewLogger md cfg s =
     (case factories s md of
        None \<Rightarrow> Return (Some (ErrUnknownMode md)) s
      | Some None \<Rightarrow> Panicked ''nil pointer dereference'' s
      | Some (Some factory) \<Rightarrow>
          (case factory (env s) of (logger, w1) \<Rightarrow>
             (case Init logger cfg w1 of
                Panicked p w2 \<Rightarrow> Panicked p (s\<lparr>env := w2\<rparr>)
              | Blocked w2 \<Rightarrow> Blocked (s\<lparr>env := w2\<rparr>)
              | Return (Some err, logger1) w2 \<Rightarrow>
                  Return (Some (ErrFailToInitialize err)) (s\<lparr>env := w2\<rparr>)
              | Return (None, logger1) w2 \<Rightarrow>
                  (case ExchangeChans logger1 (Some errorChan0) of (logger2, mc, qc) \<Rightarrow>
                     (case replace_loop md logger2 mc qc 0 (s\<lparr>env := w2\<rparr>) of
                        Panicked p s3 \<Rightarrow> Panicked p s3
                      | Blocked s3 \<Rightarrow> Blocked s3
                      | Return hasFound s3 \<Rightarrow>
                          (let s4 = (if \<not> hasFound
                                     then s3\<lparr>receivers := receivers s3 @
                                               [\<lparr>Logger = logger2, mode = md,
                                                 r_msgChan = mc, r_quitChan = qc\<rparr>],
                                             trace := trace s3 @ [EvAppend]\<rparr>
                                     else s3)
                           in Return None (s4\<lparr>trace := trace s4 @ [EvStart logger2]\<rparr>)))))))"


text \<open>The operations of the package on its state, and the state a sequence of them leaves.\<close>
datatype op = OpRegister MODE "Factory option" | OpNewLogger MODE iface

fun apply_op :: "op \<Rightarrow> clog \<Rightarrow> clog" where
  "apply_op (OpRegister md f) s = state_of (Register md f s)"
| "apply_op (OpNewLogger md cfg) s = state_of (NewLogger md cfg s)"

fun apply_ops :: "op list \<Rightarrow> clog \<Rightarrow> clog" where
  "apply_ops [] s = s"
| "apply_ops (x # xs) s = apply_ops xs (apply_op x s)"

definition CONSOLE :: MODE where
  "CONSOLE = ''console''"

text \<open>The state when the package is loaded: \<open>init\<close> has registered the console adapter.\<close>
definition loaded :: "world \<Rightarrow> clog" where
  "loaded w = state_of (Register CONSOLE (Some newConsole) (init_clog w))"

text \<open>Sample values: an adapter as \<open>newConsole\<close> leaves its fields, and a world.\<close>
definition c0 :: console where
  "c0 = \<lparr>level = 0, msgChan = None, quitChan = None, errorChan = None\<rparr>"

definition w0 :: world where
  "w0 = init_world ''2017/02/03 04:05:06 '' False False"

section \<open>Auxiliary definitions\<close>

text \<open>What rendering a list of messages, oldest first, does to the world.\<close>
definition render_all :: "Message list \<Rightarrow> world \<Rightarrow> world" where
  "render_all ms w = (if outFails w then w else w\<lparr>out := out w @ map (entry w) ms\<rparr>)"

text \<open>What the rendering and the channel operations of an adapter leave alone.\<close>
definition frame :: "world \<Rightarrow> world \<Rightarrow> bool" where
  "frame w w' \<longleftrightarrow> errChans w' = errChans w \<and> outFails w' = outFails w \<and>
                 noColor w' = noColor w \<and> now w' = now w"

text \<open>
  The consume loop together with the producers of its inbound channel: a step is a send
  of a producer or one choice of the loop's \<open>select\<close>.
\<close>
datatype step = Produce Message | Select select

fun serve :: "console \<Rightarrow> step list \<Rightarrow> world \<Rightarrow> (unit, world) outcome" where
  "serve c [] w = Blocked w"
| "serve c (Produce m # ss) w =
     (case msgChan c of
        None \<Rightarrow> serve c ss w
      | Some r \<Rightarrow>
          (case chan_send m (msgChans w r) of
             SendPanic \<Rightarrow> Panicked ''send on closed channel'' w
           | Sent ch \<Rightarrow> serve c ss (w\<lparr>msgChans := (msgChans w)(r := ch)\<rparr>)))"
| "serve c (Select e # ss) w =
     (case Start c [e] w of
        Blocked w' \<Rightarrow> serve c ss w'
      | Return u w' \<Rightarrow> Return u w'
      | Panicked p w' \<Rightarrow> Panicked p w')"

fun produced :: "step list \<Rightarrow> Message list" where
  "produced [] = []"
| "produced (Produce m # ss) = m # produced ss"
| "produced (Select e # ss) = produced ss"

text \<open>No nil function is ever stored in the registry.\<close>
definition no_nil_factory :: "clog \<Rightarrow> bool" where
  "no_nil_factory s \<longleftrightarrow> (\<forall>md. factories s md \<noteq> Some None)"

text \<open>Sample messages, channel states, configurations and dispatcher states.\<close>

definition m1 :: Message where "m1 = \<lparr>Level = 0, Body = ''one''\<rparr>"
definition m2 :: Message where "m2 = \<lparr>Level = 2, Body = ''two''\<rparr>"
definition m3 :: Message where "m3 = \<lparr>Level = 4, Body = ''three''\<rparr>"
definition m_bad :: Message where "m_bad = \<lparr>Level = 7, Body = ''seven''\<rparr>"

text \<open>A world whose channel 0 holds the given messages, and an adapter reading it.\<close>
definition w_queue :: "Message list \<Rightarrow> world" where
  "w_queue ms = w0\<lparr>msgChans := (msgChans w0)(0 := \<lparr>cap = 4, buf = ms, sendq = [], closed = False\<rparr>),
                    quitChans := (quitChans w0)(1 := \<lparr>cap = 0, buf = [], sendq = [()], closed = False\<rparr>)\<rparr>"

definition c1 :: console where
  "c1 = \<lparr>level = 0, msgChan = Some 0, quitChan = Some 1, errorChan = Some errorChan0\<rparr>"

definition cfg_a :: iface where
  "cfg_a = VConsoleConfig \<lparr>cfg_Level = 1, BufferSize = 4\<rparr>"


definition cfg_bad :: iface where
  "cfg_bad = VConsoleConfig \<lparr>cfg_Level = 9, BufferSize = 4\<rparr>"

definition lg_a :: console where
  "lg_a = \<lparr>level = 1, msgChan = Some 0, quitChan = Some 1, errorChan = Some 0\<rparr>"


text \<open>The state after the console adapter was activated once, and after it was activated again.\<close>
definition s_a :: clog where
  "s_a = \<lparr>factories = [CONSOLE \<mapsto> Some newConsole],
          receivers = [\<lparr>Logger = lg_a, mode = CONSOLE, r_msgChan = Some 0, r_quitChan = Some 1\<rparr>],
          trace = [EvAppend, EvStart lg_a],
          env = w0\<lparr>msgChans := (msgChans w0)(0 := make_chan 4), nextMsgChan := 1,
                    quitChans := (quitChans w0)(1 := make_chan 0), nextQuitChan := 2\<rparr>\<rparr>"


text \<open>A world whose channel 0 has capacity 1, one buffered message and parked senders.\<close>
definition w_parked :: "Message \<Rightarrow> Message list \<Rightarrow> world" where
  "w_parked m ps = w0\<lparr>msgChans := (msgChans w0)(0 := \<lparr>cap = 1, buf = [m], sendq = ps, closed = False\<rparr>)\<rparr>"



section \<open>Rendering\<close>
lemma length_colors: "length colors = 5"
  by (simp add: colors_def)

lemma w0_simps:
  "nextMsgChan w0 = 0" "nextQuitChan w0 = 1" "out w0 = []" "\<not> outFails w0"
  "\<not> noColor w0" "now w0 = ''2017/02/03 04:05:06 ''" "chanLimit w0 = 2 ^ 45 - 12"
  "msgChans w0 r = make_chan 0" "quitChans w0 q = make_chan 0"
  by (simp_all add: w0_def init_world_def)

lemma Print_entry:
  "Print (SprintFunc (colors ! nat (Level msg)) (noColor w) (Body msg)) w =
     (if outFails w then w else w\<lparr>out := out w @ [entry w msg]\<rparr>)"
  by (simp add: Print_def entry_def Let_def)

lemma console_write_eq:
  "console_write c msg w =
     (if 0 \<le> Level msg \<and> Level msg \<le> 4
      then Return () (if outFails w then w else w\<lparr>out := out w @ [entry w msg]\<rparr>)
      else Panicked ''index out of range'' w)"
  by (simp add: console_write_def Print_entry length_colors)

lemma render_all_simps:
  "msgChans (render_all ms w) = msgChans w"
  "quitChans (render_all ms w) = quitChans w"
  "outFails (render_all ms w) = outFails w"
  "out (render_all ms w) = out w @ (if outFails w then [] else map (entry w) ms)"
  "entry (render_all ms w) = entry w"
  by (auto simp: render_all_def entry_def)

lemma console_write_render:
  "0 \<le> Level m \<and> Level m \<le> 4 \<Longrightarrow> console_write c m w = Return () (render_all [m] w)"
  by (simp add: console_write_eq render_all_def)

lemma console_write_not_Blocked: "console_write c m w \<noteq> Blocked w'"
  by (simp add: console_write_eq)

lemma SprintFunc_inj: "SprintFunc a False s = SprintFunc b False s \<Longrightarrow> a = b"
  by (cases a; cases b) (simp_all add: SprintFunc_def)

lemma entry_colored:
  "\<not> noColor w \<Longrightarrow>
   entry w msg = now w @ CHR 0x1B # ''['' @ attr_code (colors ! nat (Level msg)) @ ''m'' @ Body msg
                   @ CHR 0x1B # ''[0m'' @ [CHR 0x0A]"
  by (simp add: entry_def SprintFunc_def Let_def)

lemma attr_code_no_LF: "CHR 0x0A \<notin> set (attr_code a)"
  by (cases a) simp_all

lemma entry_plain:
  "noColor w \<Longrightarrow>
   entry w msg = now w @ Body msg @ (if Body msg \<noteq> [] \<and> last (Body msg) = CHR 0x0A then [] else [CHR 0x0A])"
  by (simp add: entry_def SprintFunc_def Let_def)

lemma entry_one_line:
  assumes "CHR 0x0A \<notin> set (now w)" "CHR 0x0A \<notin> set (Body msg)"
  shows "count_list (entry w msg) (CHR 0x0A) = 1 \<and> last (entry w msg) = CHR 0x0A"
proof (cases "noColor w")
  case True
  from assms(2) have "\<not> (Body msg \<noteq> [] \<and> last (Body msg) = CHR 0x0A)"
    using last_in_set by fastforce
  with True assms show ?thesis by (simp add: entry_plain)
next
  case False
  with assms attr_code_no_LF [of "colors ! nat (Level msg)"] show ?thesis
    by (simp add: entry_colored)
qed

lemma entry_levels_differ:
  assumes "\<not> noColor w" "0 \<le> Level msg" "Level msg \<le> 4" "0 \<le> Level msg'" "Level msg' \<le> 4"
    "Level msg \<noteq> Level msg'" "Body msg' = Body msg"
  shows "entry w msg \<noteq> entry w msg'"
proof
  assume "entry w msg = entry w msg'"
  with assms(1,7) have "SprintFunc (colors ! nat (Level msg)) False (Body msg)
      = SprintFunc (colors ! nat (Level msg')) False (Body msg)"
    by (simp add: entry_def SprintFunc_def Let_def)
  then have "colors ! nat (Level msg) = colors ! nat (Level msg')" by (rule SprintFunc_inj)
  moreover have "distinct colors" by (simp add: colors_def)
  moreover have "nat (Level msg) < length colors" "nat (Level msg') < length colors"
    using assms by (simp_all add: length_colors)
  ultimately have "nat (Level msg) = nat (Level msg')"
    by (simp add: nth_eq_iff_index_eq)
  with assms show False by simp
qed

text \<open>
  C10. \<open>write\<close> indexes the five-element colour table with the level of the message and
  checks nothing: it renders exactly when the level lies between 0 and 4, and panics with
  an index out of range for every other level.
\<close>
theorem console_write_index_range:
  "length colors = 5 \<and>
   ((\<exists>w'. console_write c msg w = Return () w') \<longleftrightarrow> (0 \<le> Level msg \<and> Level msg \<le> 4)) \<and>
   (\<not> (0 \<le> Level msg \<and> Level msg \<le> 4) \<longrightarrow>
      console_write c msg w = Panicked ''index out of range'' w)"
  by (auto simp: console_write_def length_colors)

theorem console_write_index_range_witness:
  "console_write c0 m_bad w0 = Panicked ''index out of range'' w0 \<and> Level m_bad = 7"
  using console_write_index_range [of c0 m_bad w0]
  by (simp add: m_bad_def)

text \<open>
  C9, as the spec states it, fails. A body that holds a line end is written in one entry of
  two lines, the second without a timestamp; and with colour switched off the bodies of a
  Trace and of a Fatal message are written alike, without any colour.
\<close>
theorem console_write_lines_counterexample:
  "console_write c0 \<lparr>Level = 0, Body = ''a'' @ [CHR 0x0A] @ ''b''\<rparr> w0
     = Return () (w0\<lparr>out := [''2017/02/03 04:05:06 '' @ CHR 0x1B # ''[34ma'' @ [CHR 0x0A] @ ''b''
                                @ CHR 0x1B # ''[0m'' @ [CHR 0x0A]]\<rparr>) \<and>
   count_list (''2017/02/03 04:05:06 '' @ CHR 0x1B # ''[34ma'' @ [CHR 0x0A] @ ''b''
                                @ CHR 0x1B # ''[0m'' @ [CHR 0x0A]) (CHR 0x0A) = 2 \<and>
   console_write c0 \<lparr>Level = 0, Body = ''x''\<rparr> (w0\<lparr>noColor := True\<rparr>)
     = Return () (w0\<lparr>noColor := True, out := [''2017/02/03 04:05:06 x'' @ [CHR 0x0A]]\<rparr>) \<and>
   console_write c0 \<lparr>Level = 4, Body = ''x''\<rparr> (w0\<lparr>noColor := True\<rparr>)
     = Return () (w0\<lparr>noColor := True, out := [''2017/02/03 04:05:06 x'' @ [CHR 0x0A]]\<rparr>)"
  by (simp add: console_write_eq w0_def init_world_def entry_def SprintFunc_def colors_def Let_def)

text \<open>
  C9, amended. The colour table has five distinct entries, one for each level in the order
  Trace, Info, Warn, Error, Fatal. A message that is rendered adds exactly one entry to the
  stream: the date and time header, then the body passed through the colour function of
  its level, then the end of line if that text does not end with one. When header and body
  hold no line end the entry is exactly one line. With colour on, the body is wrapped in
  the escape code of the colour of its level, and messages of different levels with the
  same body are written differently; with colour off the body is written as it is.
\<close>
theorem console_write_one_colored_entry:
  "colors = [FgBlue, FgGreen, FgYellow, FgRed, FgHiRed] \<and> distinct colors \<and>
   (\<forall>a b s. SprintFunc a False s = SprintFunc b False s \<longrightarrow> a = b) \<and>
   (console_write c msg w = Return u w' \<and> \<not> outFails w \<longrightarrow> out w' = out w @ [entry w msg]) \<and>
   entry w msg = now w @ SprintFunc (colors ! nat (Level msg)) (noColor w) (Body msg)
          @ (if SprintFunc (colors ! nat (Level msg)) (noColor w) (Body msg) \<noteq> [] \<and>
                last (SprintFunc (colors ! nat (Level msg)) (noColor w) (Body msg)) = CHR 0x0A
             then [] else [CHR 0x0A]) \<and>
   (\<not> noColor w \<longrightarrow>
      entry w msg = now w @ CHR 0x1B # ''['' @ attr_code (colors ! nat (Level msg)) @ ''m''
                      @ Body msg @ CHR 0x1B # ''[0m'' @ [CHR 0x0A]) \<and>
   (noColor w \<longrightarrow>
      entry w msg = now w @ Body msg
                      @ (if Body msg \<noteq> [] \<and> last (Body msg) = CHR 0x0A then [] else [CHR 0x0A])) \<and>
   (CHR 0x0A \<notin> set (now w) \<and> CHR 0x0A \<notin> set (Body msg) \<longrightarrow>
      count_list (entry w msg) (CHR 0x0A) = 1 \<and> last (entry w msg) = CHR 0x0A) \<and>
   (\<not> noColor w \<and> 0 \<le> Level msg \<and> Level msg \<le> 4 \<and> 0 \<le> Level msg' \<and> Level msg' \<le> 4 \<and>
    Level msg \<noteq> Level msg' \<and> Body msg' = Body msg \<longrightarrow> entry w msg \<noteq> entry w msg')"
proof (intro conjI allI impI)
  show "colors = [FgBlue, FgGreen, FgYellow, FgRed, FgHiRed]" by (simp add: colors_def)
  show "distinct colors" by (simp add: colors_def)
  show "entry w msg = now w @ SprintFunc (colors ! nat (Level msg)) (noColor w) (Body msg)
          @ (if SprintFunc (colors ! nat (Level msg)) (noColor w) (Body msg) \<noteq> [] \<and>
                last (SprintFunc (colors ! nat (Level msg)) (noColor w) (Body msg)) = CHR 0x0A
             then [] else [CHR 0x0A])"
    by (simp add: entry_def Let_def)
next
  fix a b s assume "SprintFunc a False s = SprintFunc b False s"
  then show "a = b" by (rule SprintFunc_inj)
next
  assume "console_write c msg w = Return u w' \<and> \<not> outFails w"
  then show "out w' = out w @ [entry w msg]"
    by (auto simp: console_write_eq split: if_splits)
next
  assume "\<not> noColor w"
  then show "entry w msg = now w @ CHR 0x1B # ''['' @ attr_code (colors ! nat (Level msg)) @ ''m''
                         @ Body msg @ CHR 0x1B # ''[0m'' @ [CHR 0x0A]"
    by (rule entry_colored)
next
  assume "noColor w"
  then show "entry w msg = now w @ Body msg
                      @ (if Body msg \<noteq> [] \<and> last (Body msg) = CHR 0x0A then [] else [CHR 0x0A])"
    by (rule entry_plain)
next
  assume a: "CHR 0x0A \<notin> set (now w) \<and> CHR 0x0A \<notin> set (Body msg)"
  then show "count_list (entry w msg) (CHR 0x0A) = 1" using entry_one_line by blast
  from a show "last (entry w msg) = CHR 0x0A" using entry_one_line by blast
next
  assume "\<not> noColor w \<and> 0 \<le> Level msg \<and> Level msg \<le> 4 \<and> 0 \<le> Level msg' \<and> Level msg' \<le> 4 \<and>
    Level msg \<noteq> Level msg' \<and> Body msg' = Body msg"
  then show "entry w msg \<noteq> entry w msg'" by (intro entry_levels_differ) simp_all
qed

theorem console_write_one_colored_entry_witness:
  "console_write c0 \<lparr>Level = 3, Body = ''disk full''\<rparr> w0
     = Return () (w0\<lparr>out := [''2017/02/03 04:05:06 '' @ CHR 0x1B # ''[31mdisk full''
                                @ CHR 0x1B # ''[0m'' @ [CHR 0x0A]]\<rparr>)
   \<and> out w0 = [] \<and> \<not> outFails w0 \<and> \<not> noColor w0 \<and>
   count_list (entry w0 \<lparr>Level = 3, Body = ''disk full''\<rparr>) (CHR 0x0A) = 1 \<and>
   entry w0 \<lparr>Level = 3, Body = ''disk full''\<rparr> \<noteq> entry w0 \<lparr>Level = 1, Body = ''disk full''\<rparr> \<and>
   entry (w0\<lparr>noColor := True\<rparr>) \<lparr>Level = 3, Body = ''disk full''\<rparr>
     = ''2017/02/03 04:05:06 disk full'' @ [CHR 0x0A]"
proof -
  let ?m = "\<lparr>Level = 3, Body = ''disk full''\<rparr>"
  let ?m' = "\<lparr>Level = 1, Body = ''disk full''\<rparr>"
  have wr: "console_write c0 ?m w0 = Return () (w0\<lparr>out := [entry w0 ?m]\<rparr>) \<and> \<not> outFails w0"
    by (simp add: console_write_eq w0_simps)
  have nc: "\<not> noColor w0" by (simp add: w0_simps)
  have lf: "CHR 0x0A \<notin> set (now w0) \<and> CHR 0x0A \<notin> set (Body ?m)" by (simp add: w0_simps)
  have lv: "\<not> noColor w0 \<and> 0 \<le> Level ?m \<and> Level ?m \<le> 4 \<and> 0 \<le> Level ?m' \<and> Level ?m' \<le> 4 \<and>
    Level ?m \<noteq> Level ?m' \<and> Body ?m' = Body ?m" by (simp add: w0_simps)
  note T = console_write_one_colored_entry [of c0 ?m w0 "()" "w0\<lparr>out := [entry w0 ?m]\<rparr>" ?m']
  from T nc have "entry w0 ?m = now w0 @ CHR 0x1B # ''['' @ attr_code (colors ! nat (Level ?m)) @ ''m''
                      @ Body ?m @ CHR 0x1B # ''[0m'' @ [CHR 0x0A]" by blast
  then have 1: "entry w0 ?m = ''2017/02/03 04:05:06 '' @ CHR 0x1B # ''[31mdisk full''
                                @ CHR 0x1B # ''[0m'' @ [CHR 0x0A]"
    by (simp add: colors_def w0_simps)
  from T lf have 2: "count_list (entry w0 ?m) (CHR 0x0A) = 1" by blast
  from T lv have 3: "entry w0 ?m \<noteq> entry w0 ?m'" by blast
  have "noColor (w0\<lparr>noColor := True\<rparr>)" by simp
  with console_write_one_colored_entry [of c0 ?m "w0\<lparr>noColor := True\<rparr>" "()" w0 ?m']
  have "entry (w0\<lparr>noColor := True\<rparr>) ?m = now (w0\<lparr>noColor := True\<rparr>) @ Body ?m
                      @ (if Body ?m \<noteq> [] \<and> last (Body ?m) = CHR 0x0A then [] else [CHR 0x0A])"
    by blast
  then have 4: "entry (w0\<lparr>noColor := True\<rparr>) ?m = ''2017/02/03 04:05:06 disk full'' @ [CHR 0x0A]"
    by (simp add: w0_simps)
  have o: "out w0 = []" by (simp add: w0_simps)
  from wr have "console_write c0 ?m w0 = Return () (w0\<lparr>out := [''2017/02/03 04:05:06 '' @ CHR 0x1B # ''[31mdisk full''
                                @ CHR 0x1B # ''[0m'' @ [CHR 0x0A]]\<rparr>)"
    unfolding 1 by simp
  with wr nc o 2 3 4 show ?thesis by blast
qed

section \<open>Initialisation of the console adapter\<close>
lemma Init_not_config:
  "(\<forall>cfg. v \<noteq> VConsoleConfig cfg) \<Longrightarrow>
   Init c v w = Return (Some (ErrConfigObject ''ConsoleConfig'' v), c) w"
  by (cases v) (simp_all add: Init_def)

lemma Init_invalid_level:
  "\<not> isValidLevel (cfg_Level cfg) \<Longrightarrow>
   Init c (VConsoleConfig cfg) w = Return (Some ErrInvalidLevel, c) w"
  by (simp add: Init_def)

lemma Init_ok:
  "isValidLevel (cfg_Level cfg) \<Longrightarrow> 0 \<le> sint (BufferSize cfg) \<Longrightarrow>
   sint (BufferSize cfg) \<le> int (chanLimit w) \<Longrightarrow>
   Init c (VConsoleConfig cfg) w =
     Return (None, c\<lparr>level := cfg_Level cfg, msgChan := Some (nextMsgChan w)\<rparr>)
       (w\<lparr>msgChans := (msgChans w)(nextMsgChan w := make_chan (nat (sint (BufferSize cfg)))),
          nextMsgChan := Suc (nextMsgChan w)\<rparr>)"
  by (simp add: Init_def)

text \<open>
  C6, as the spec states it, fails: the error for an invalid level has no field, so two
  different out-of-range levels give the same error value and the value is not named.
\<close>
theorem Init_invalid_level_counterexample:
  "Init c0 (VConsoleConfig \<lparr>cfg_Level = 7, BufferSize = 10\<rparr>) w0 = Return (Some ErrInvalidLevel, c0) w0 \<and>
   Init c0 (VConsoleConfig \<lparr>cfg_Level = - 1, BufferSize = 10\<rparr>) w0 = Return (Some ErrInvalidLevel, c0) w0"
  by (simp add: Init_def isValidLevel_def)

text \<open>
  C6, amended. \<open>Init\<close> returns \<open>ErrConfigObject\<close> with the expected type name
  \<open>ConsoleConfig\<close> and the value received when the argument is not a \<open>ConsoleConfig\<close>;
  it returns \<open>ErrInvalidLevel\<close>, which carries no value, when the level is out of
  range; and when it returns nil it has allocated a fresh inbound channel whose capacity is
  \<open>BufferSize\<close>.
\<close>
theorem Init_errors_and_capacity:
  "((\<forall>cfg. v \<noteq> VConsoleConfig cfg) \<longrightarrow>
      Init c v w = Return (Some (ErrConfigObject ''ConsoleConfig'' v), c) w) \<and>
   (\<not> (0 \<le> cfg_Level cfg \<and> cfg_Level cfg \<le> 4) \<longrightarrow>
      Init c (VConsoleConfig cfg) w = Return (Some ErrInvalidLevel, c) w) \<and>
   (Init c v w = Return (None, c') w' \<longrightarrow>
      (\<exists>cfg r. v = VConsoleConfig cfg \<and> msgChan c' = Some r \<and> level c' = cfg_Level cfg \<and>
         msgChans w' r = make_chan (nat (sint (BufferSize cfg))) \<and>
         int (cap (msgChans w' r)) = sint (BufferSize cfg) \<and>
         r = nextMsgChan w \<and> nextMsgChan w' = Suc r))"
proof (intro conjI impI)
  assume "\<forall>cfg. v \<noteq> VConsoleConfig cfg"
  then show "Init c v w = Return (Some (ErrConfigObject ''ConsoleConfig'' v), c) w"
    by (rule Init_not_config)
next
  assume "\<not> (0 \<le> cfg_Level cfg \<and> cfg_Level cfg \<le> 4)"
  then show "Init c (VConsoleConfig cfg) w = Return (Some ErrInvalidLevel, c) w"
    by (simp add: Init_invalid_level isValidLevel_def)
next
  assume ok: "Init c v w = Return (None, c') w'"
  then obtain cfg where v: "v = VConsoleConfig cfg"
    by (cases v) (simp_all add: Init_def)
  from ok v have valid: "isValidLevel (cfg_Level cfg)" and nn: "0 \<le> sint (BufferSize cfg)"
    and le: "sint (BufferSize cfg) \<le> int (chanLimit w)"
    by (auto simp: Init_def split: if_splits)
  from ok v Init_ok [OF valid nn le, of c]
  have c': "c' = c\<lparr>level := cfg_Level cfg, msgChan := Some (nextMsgChan w)\<rparr>"
    and w': "w' = w\<lparr>msgChans := (msgChans w)(nextMsgChan w := make_chan (nat (sint (BufferSize cfg)))),
          nextMsgChan := Suc (nextMsgChan w)\<rparr>"
    by simp_all
  show "\<exists>cfg r. v = VConsoleConfig cfg \<and> msgChan c' = Some r \<and> level c' = cfg_Level cfg \<and>
         msgChans w' r = make_chan (nat (sint (BufferSize cfg))) \<and>
         int (cap (msgChans w' r)) = sint (BufferSize cfg) \<and>
         r = nextMsgChan w \<and> nextMsgChan w' = Suc r"
    using v c' w' nn by (simp add: make_chan_def)
qed

theorem Init_errors_and_capacity_witness:
  "Init c0 (VOther ''FileConfig'' ''{}'') w0 = Return (Some (ErrConfigObject ''ConsoleConfig'' (VOther ''FileConfig'' ''{}'')), c0) w0 \<and>
   Init c0 (VConsoleConfig \<lparr>cfg_Level = 7, BufferSize = 10\<rparr>) w0 = Return (Some ErrInvalidLevel, c0) w0 \<and>
   cap (msgChans (state_of (Init c0 (VConsoleConfig \<lparr>cfg_Level = 2, BufferSize = 10\<rparr>) w0)) 0) = 10"
proof -
  have ok: "Init c0 (VConsoleConfig \<lparr>cfg_Level = 2, BufferSize = 10\<rparr>) w0 =
     Return (None, c0\<lparr>level := 2, msgChan := Some 0\<rparr>)
       (w0\<lparr>msgChans := (msgChans w0)(0 := make_chan 10), nextMsgChan := Suc 0\<rparr>)"
    by (simp add: Init_def isValidLevel_def w0_def init_world_def)
  from Init_errors_and_capacity
    [of "VOther ''FileConfig'' ''{}''" c0 w0 "\<lparr>cfg_Level = 7, BufferSize = 10\<rparr>"]
  have a: "Init c0 (VOther ''FileConfig'' ''{}'') w0 = Return (Some (ErrConfigObject ''ConsoleConfig'' (VOther ''FileConfig'' ''{}'')), c0) w0"
    and b: "Init c0 (VConsoleConfig \<lparr>cfg_Level = 7, BufferSize = 10\<rparr>) w0 = Return (Some ErrInvalidLevel, c0) w0"
    by simp_all
  from Init_errors_and_capacity
    [of "VConsoleConfig \<lparr>cfg_Level = 2, BufferSize = 10\<rparr>" c0 w0 "\<lparr>cfg_Level = 7, BufferSize = 10\<rparr>"
        "c0\<lparr>level := 2, msgChan := Some 0\<rparr>"
        "w0\<lparr>msgChans := (msgChans w0)(0 := make_chan 10), nextMsgChan := Suc 0\<rparr>"] ok
  have "cap (msgChans (state_of (Init c0 (VConsoleConfig \<lparr>cfg_Level = 2, BufferSize = 10\<rparr>) w0)) 0) = 10"
    by (simp add: make_chan_def)
  with a b show ?thesis by simp
qed

text \<open>
  C8. With \<open>BufferSize\<close> zero \<open>Init\<close> either rejects the configuration (the level is
  invalid) or allocates an inbound channel of capacity zero; on an open channel of capacity
  zero a send never enters the buffer: the sender is parked, and the next receive takes
  its message.
\<close>
theorem Init_zero_BufferSize:
  assumes "BufferSize cfg = 0"
  shows "(\<not> isValidLevel (cfg_Level cfg) \<longrightarrow>
            Init c (VConsoleConfig cfg) w = Return (Some ErrInvalidLevel, c) w) \<and>
         (isValidLevel (cfg_Level cfg) \<longrightarrow>
            (\<exists>c' w' r. Init c (VConsoleConfig cfg) w = Return (None, c') w' \<and>
               msgChan c' = Some r \<and> msgChans w' r = make_chan 0 \<and> cap (msgChans w' r) = 0)) \<and>
         (\<forall>ch :: Message chan. cap ch = 0 \<and> \<not> closed ch \<longrightarrow>
            (\<forall>m. chan_send m ch = Sent (ch\<lparr>sendq := sendq ch @ [m]\<rparr>))) \<and>
         (\<forall>m :: Message. chan_recv ((make_chan 0)\<lparr>sendq := [m]\<rparr>) = Recv m (make_chan 0))"
  using assms by (simp add: Init_def chan_send_def chan_recv_def make_chan_def)

theorem Init_zero_BufferSize_witness:
  "\<exists>c' w' r. Init c0 (VConsoleConfig \<lparr>cfg_Level = 0, BufferSize = 0\<rparr>) w0 = Return (None, c') w' \<and>
      msgChan c' = Some r \<and> cap (msgChans w' r) = 0 \<and>
      chan_send \<lparr>Level = 0, Body = ''a''\<rparr> (msgChans w' r)
        = Sent ((msgChans w' r)\<lparr>sendq := [\<lparr>Level = 0, Body = ''a''\<rparr>]\<rparr>)"
  using Init_zero_BufferSize [of "\<lparr>cfg_Level = 0, BufferSize = 0\<rparr>" c0 w0]
  by (simp add: isValidLevel_def Init_def chan_send_def make_chan_def)

section \<open>What rendering leaves alone\<close>
lemma frame_refl: "frame w w"
  by (simp add: frame_def)

lemma frame_trans: "frame w w1 \<Longrightarrow> frame w1 w2 \<Longrightarrow> frame w w2"
  by (simp add: frame_def)

lemma frame_msgChans: "frame w (w\<lparr>msgChans := x\<rparr>)"
  by (simp add: frame_def)

lemma frame_quitChans: "frame w (w\<lparr>quitChans := x\<rparr>)"
  by (simp add: frame_def)

lemma console_write_frame: "frame w (state_of (console_write c m w))"
  by (simp add: console_write_eq frame_def)

lemma Flush_frame: "frame w (state_of (Flush c w))"
proof (induction c w rule: Flush.induct)
  case (1 c w)
  show ?case
  proof (cases "msgChan c")
    case None
    then show ?thesis by (simp add: Flush.simps [of c w] frame_refl)
  next
    case (Some r)
    show ?thesis
    proof (cases "length (buf (msgChans w r)) = 0")
      case True
      then show ?thesis using Some by (simp add: Flush.simps [of c w] frame_refl)
    next
      case False
      show ?thesis
      proof (cases "chan_recv (msgChans w r)")
        case (Recv m ch)
        let ?w1 = "w\<lparr>msgChans := (msgChans w)(r := ch)\<rparr>"
        have f1: "frame w (state_of (console_write c m ?w1))"
          by (rule frame_trans [OF frame_msgChans console_write_frame])
        show ?thesis
        proof (cases "console_write c m ?w1")
          case (Return u w')
          from "1.IH" [OF Some _ Recv Return] False
          have "frame w' (state_of (Flush c w'))" by simp
          with f1 Return have "frame w (state_of (Flush c w'))"
            by (auto intro: frame_trans)
          then show ?thesis
            using Some False Recv Return by (simp add: Flush.simps [of c w])
        next
          case (Panicked p w')
          with f1 show ?thesis
            using Some False Recv by (simp add: Flush.simps [of c w])
        next
          case (Blocked w')
          with f1 show ?thesis
            using Some False Recv by (simp add: Flush.simps [of c w])
        qed
      next
        case RecvClosed
        then show ?thesis using Some False by (simp add: Flush.simps [of c w] frame_refl)
      next
        case RecvBlock
        then show ?thesis using Some False by (simp add: Flush.simps [of c w] frame_refl)
      qed
    qed
  qed
qed

lemma Start_frame: "frame w (state_of (Start c es w))"
proof (induction es arbitrary: w)
  case Nil
  show ?case by (simp add: frame_refl)
next
  case (Cons e es)
  show ?case
  proof (cases e)
    case CaseMsg
    show ?thesis
    proof (cases "msgChan c")
      case None
      then show ?thesis using CaseMsg Cons.IH by simp
    next
      case (Some r)
      show ?thesis
      proof (cases "chan_recv (msgChans w r)")
        case (Recv m ch)
        let ?w1 = "w\<lparr>msgChans := (msgChans w)(r := ch)\<rparr>"
        have f1: "frame w (state_of (console_write c m ?w1))"
          by (rule frame_trans [OF frame_msgChans console_write_frame])
        show ?thesis
        proof (cases "console_write c m ?w1")
          case (Return u w')
          with f1 Cons.IH [of w'] have "frame w (state_of (Start c es w'))"
            by (auto intro: frame_trans)
          then show ?thesis using CaseMsg Some Recv Return by simp
        next
          case (Panicked p w')
          with f1 show ?thesis using CaseMsg Some Recv by simp
        next
          case (Blocked w')
          with f1 show ?thesis using CaseMsg Some Recv by simp
        qed
      next
        case RecvClosed
        then show ?thesis using CaseMsg Some by (simp add: frame_refl)
      next
        case RecvBlock
        then show ?thesis using CaseMsg Some Cons.IH by simp
      qed
    qed
  next
    case CaseQuit
    show ?thesis
    proof (cases "quitChan c")
      case None
      then show ?thesis using CaseQuit Cons.IH by simp
    next
      case (Some q)
      then show ?thesis using CaseQuit Cons.IH
        by (cases "chan_recv (quitChans w q)") (simp_all add: frame_refl frame_quitChans)
    qed
  qed
qed

text \<open>
  C5, as the spec states it, fails: with a stream that rejects the write, \<open>write\<close> returns
  normally and leaves the shared error channel empty; nothing is pushed.
\<close>
theorem console_write_failure_counterexample:
  "console_write (c0\<lparr>errorChan := Some errorChan0\<rparr>) \<lparr>Level = 1, Body = ''started''\<rparr> (w0\<lparr>outFails := True\<rparr>)
     = Return () (w0\<lparr>outFails := True\<rparr>) \<and>
   buf (errChans (w0\<lparr>outFails := True\<rparr>) errorChan0) = [] \<and>
   sendq (errChans (w0\<lparr>outFails := True\<rparr>) errorChan0) = []"
  by (simp add: console_write_eq w0_def init_world_def make_chan_def)

text \<open>
  C5, amended. \<open>ExchangeChans\<close> retains the error channel, but a write failure is neither
  returned to a caller nor reported: with a failing stream \<open>write\<close> returns normally and
  changes nothing, and \<open>write\<close>, \<open>Flush\<close> and \<open>Start\<close> never touch an error channel.
\<close>
theorem write_failure_never_reported:
  "errorChan (fst (ExchangeChans c e)) = e \<and>
   (outFails w \<and> 0 \<le> Level msg \<and> Level msg \<le> 4 \<longrightarrow> console_write c msg w = Return () w) \<and>
   errChans (state_of (console_write c msg w)) = errChans w \<and>
   errChans (state_of (Flush c w)) = errChans w \<and>
   errChans (state_of (Start c es w)) = errChans w"
  using console_write_frame [of w c msg] Flush_frame [of w c] Start_frame [of w c es]
  by (simp add: ExchangeChans_def console_write_eq frame_def)

theorem write_failure_never_reported_witness:
  "outFails (w0\<lparr>outFails := True\<rparr>) \<and>
   console_write (c0\<lparr>errorChan := Some errorChan0\<rparr>) \<lparr>Level = 1, Body = ''started''\<rparr> (w0\<lparr>outFails := True\<rparr>)
     = Return () (w0\<lparr>outFails := True\<rparr>)"
  using write_failure_never_reported
    [of "c0\<lparr>errorChan := Some errorChan0\<rparr>" "Some errorChan0" "w0\<lparr>outFails := True\<rparr>"
        "\<lparr>Level = 1, Body = ''started''\<rparr>" "[]"]
  by simp

lemma chan_recv_nonempty:
  "buf ch = x # xs \<Longrightarrow>
   chan_recv ch = Recv x (ch\<lparr>buf := xs @ take 1 (sendq ch), sendq := drop 1 (sendq ch)\<rparr>)"
  by (simp add: chan_recv_def)

lemma Flush_empty_buf:
  "msgChan c = Some r \<Longrightarrow> buf (msgChans w r) = [] \<Longrightarrow> Flush c w = Return () w"
  by (simp add: Flush.simps [of c w])

lemma Flush_pending_aux:
  "msgChan c = Some r \<Longrightarrow> buf (msgChans w r) \<noteq> [] \<Longrightarrow> pending (msgChans w r) = ms \<Longrightarrow>
   \<forall>m \<in> set ms. 0 \<le> Level m \<and> Level m \<le> 4 \<Longrightarrow>
   Flush c w = Return () (render_all ms
       (w\<lparr>msgChans := (msgChans w)(r := (msgChans w r)\<lparr>buf := [], sendq := []\<rparr>)\<rparr>))"
proof (induction ms arbitrary: w)
  case Nil
  then show ?case by (simp add: pending_def)
next
  case (Cons m ms)
  obtain xs where b: "buf (msgChans w r) = m # xs"
    using Cons.prems(2,3) by (cases "buf (msgChans w r)") (auto simp: pending_def)
  let ?ch = "(msgChans w r)\<lparr>buf := xs @ take 1 (sendq (msgChans w r)),
                             sendq := drop 1 (sendq (msgChans w r))\<rparr>"
  let ?w1 = "w\<lparr>msgChans := (msgChans w)(r := ?ch)\<rparr>"
  let ?w2 = "render_all [m] ?w1"
  let ?end = "w\<lparr>msgChans := (msgChans w)(r := (msgChans w r)\<lparr>buf := [], sendq := []\<rparr>)\<rparr>"
  have recv: "chan_recv (msgChans w r) = Recv m ?ch" by (rule chan_recv_nonempty [OF b])
  have pch: "pending ?ch = ms"
    using Cons.prems(3) b by (simp add: pending_def)
  have lv: "0 \<le> Level m \<and> Level m \<le> 4" using Cons.prems(4) by simp
  have wr: "console_write c m ?w1 = Return () ?w2" using lv by (rule console_write_render)
  have step: "Flush c w = Flush c ?w2"
    using Cons.prems(1) b recv wr by (simp add: Flush.simps [of c w])
  have ch2: "msgChans ?w2 r = ?ch" by (simp add: render_all_simps)
  have e2: "?w2\<lparr>msgChans := (msgChans ?w2)(r := (msgChans ?w2 r)\<lparr>buf := [], sendq := []\<rparr>)\<rparr>
              = render_all [m] ?end"
    by (simp add: render_all_def entry_def)
  have r2: "render_all ms (render_all [m] ?end) = render_all (m # ms) ?end"
    by (simp add: render_all_def entry_def)
  show ?case
  proof (cases "buf ?ch = []")
    case True
    then have "ms = []" using pch by (simp add: pending_def)
    have "sendq ?ch = []" using True pch \<open>ms = []\<close> by (simp add: pending_def)
    with True have "?ch = (msgChans w r)\<lparr>buf := [], sendq := []\<rparr>" by simp
    then have w2e: "?w2 = render_all [m] ?end" by (simp only:)
    have fl: "Flush c ?w2 = Return () ?w2"
    proof (rule Flush_empty_buf [OF Cons.prems(1)])
      show "buf (msgChans ?w2 r) = []" unfolding ch2 by (rule True)
    qed
    from step fl have "Flush c w = Return () ?w2" by (simp only:)
    then show ?thesis unfolding w2e \<open>ms = []\<close> .
  next
    case False
    have "Flush c ?w2 = Return () (render_all ms
       (?w2\<lparr>msgChans := (msgChans ?w2)(r := (msgChans ?w2 r)\<lparr>buf := [], sendq := []\<rparr>)\<rparr>))"
      using Cons.prems(1,4) False pch by (intro Cons.IH) (simp_all add: render_all_simps)
    then have "Flush c ?w2 = Return () (render_all (m # ms) ?end)" unfolding e2 r2 .
    with step show ?thesis by (simp only:)
  qed
qed

lemma Flush_not_Blocked: "Flush c w \<noteq> Blocked w'"
proof (induction c w rule: Flush.induct)
  case (1 c w)
  show ?case
  proof (cases "msgChan c")
    case None
    then show ?thesis by (simp add: Flush.simps [of c w])
  next
    case (Some r)
    show ?thesis
    proof (cases "buf (msgChans w r)")
      case Nil
      then show ?thesis using Some by (simp add: Flush.simps [of c w])
    next
      case (Cons m ms)
      let ?ch = "(msgChans w r)\<lparr>buf := ms @ take 1 (sendq (msgChans w r)),
                                 sendq := drop 1 (sendq (msgChans w r))\<rparr>"
      let ?w1 = "w\<lparr>msgChans := (msgChans w)(r := ?ch)\<rparr>"
      have recv: "chan_recv (msgChans w r) = Recv m ?ch"
        using Cons by (simp add: chan_recv_def)
      have ne: "length (buf (msgChans w r)) \<noteq> 0" using Cons by simp
      show ?thesis
      proof (cases "console_write c m ?w1")
        case (Return u w2)
        from "1.IH" [OF Some ne recv Return] show ?thesis
          using Some Cons recv Return by (simp add: Flush.simps [of c w])
      next
        case (Panicked p w2)
        then show ?thesis using Some Cons recv by (simp add: Flush.simps [of c w])
      next
        case (Blocked w2)
        then show ?thesis using console_write_not_Blocked by blast
      qed
    qed
  qed
qed

text \<open>
  C3, as the spec states it, fails: a queued message whose level is outside the colour
  table makes \<open>Flush\<close> panic; it does not return and the message is not rendered.
\<close>
theorem Flush_bad_level_counterexample:
  "Flush c1 (w_queue [m_bad]) = Panicked ''index out of range'' (w_queue [])"
  by (subst Flush.simps) (simp add: c1_def w_queue_def chan_recv_def console_write_eq m_bad_def)

text \<open>
  C3, amended. \<open>Flush\<close> never waits. On the nil channel and on an empty queue it returns
  at once. On a queue that is not empty it receives the queued messages and then those of
  the senders parked on the channel, which enter the queue as it drains; when all of these
  have a level between 0 and 4 it returns, having rendered each of them once, in order, and
  leaving the channel empty. With no sender parked the number of renderings is the length
  of the queue.
\<close>
theorem Flush_drains_queue:
  "(\<forall>w'. Flush c w \<noteq> Blocked w') \<and>
   (msgChan c = None \<longrightarrow> Flush c w = Return () w) \<and>
   (msgChan c = Some r \<and> buf (msgChans w r) = [] \<longrightarrow> Flush c w = Return () w) \<and>
   (msgChan c = Some r \<and> buf (msgChans w r) \<noteq> [] \<and>
    (\<forall>m \<in> set (pending (msgChans w r)). 0 \<le> Level m \<and> Level m \<le> 4) \<longrightarrow>
      Flush c w = Return () (render_all (pending (msgChans w r))
                    (w\<lparr>msgChans := (msgChans w)(r := (msgChans w r)\<lparr>buf := [], sendq := []\<rparr>)\<rparr>)) \<and>
      pending (msgChans (state_of (Flush c w)) r) = [] \<and>
      (\<not> outFails w \<longrightarrow>
         out (state_of (Flush c w)) =
           out w @ map (entry w) (buf (msgChans w r)) @ map (entry w) (sendq (msgChans w r)) \<and>
         (sendq (msgChans w r) = [] \<longrightarrow>
            length (out (state_of (Flush c w))) = length (out w) + length (buf (msgChans w r)))))"
proof (intro conjI impI allI)
  fix w' show "Flush c w \<noteq> Blocked w'" by (rule Flush_not_Blocked)
next
  assume "msgChan c = None"
  then show "Flush c w = Return () w" by (simp add: Flush.simps [of c w])
next
  assume "msgChan c = Some r \<and> buf (msgChans w r) = []"
  then show "Flush c w = Return () w" by (simp add: Flush_empty_buf)
next
  assume a: "msgChan c = Some r \<and> buf (msgChans w r) \<noteq> [] \<and>
    (\<forall>m \<in> set (pending (msgChans w r)). 0 \<le> Level m \<and> Level m \<le> 4)"
  then have fl: "Flush c w = Return () (render_all (pending (msgChans w r))
                    (w\<lparr>msgChans := (msgChans w)(r := (msgChans w r)\<lparr>buf := [], sendq := []\<rparr>)\<rparr>))"
    by (intro Flush_pending_aux) simp_all
  then show "Flush c w = Return () (render_all (pending (msgChans w r))
                    (w\<lparr>msgChans := (msgChans w)(r := (msgChans w r)\<lparr>buf := [], sendq := []\<rparr>)\<rparr>))" .
  show "pending (msgChans (state_of (Flush c w)) r) = []"
    by (simp add: fl render_all_simps pending_def)
  assume nf: "\<not> outFails w"
  then show o: "out (state_of (Flush c w)) =
           out w @ map (entry w) (buf (msgChans w r)) @ map (entry w) (sendq (msgChans w r))"
    by (simp add: fl render_all_def entry_def pending_def)
  assume "sendq (msgChans w r) = []"
  then show "length (out (state_of (Flush c w))) = length (out w) + length (buf (msgChans w r))"
    by (simp add: o)
qed

theorem Flush_drains_queue_witness:
  "Flush c1 (w_parked m1 [m2, m3]) =
     Return () (w0\<lparr>msgChans := (msgChans w0)(0 := \<lparr>cap = 1, buf = [], sendq = [], closed = False\<rparr>),
                  out := [entry w0 m1, entry w0 m2, entry w0 m3]\<rparr>) \<and>
   buf (msgChans (w_parked m1 [m2, m3]) 0) = [m1] \<and>
   Flush c1 (w_queue []) = Return () (w_queue [])"
proof -
  have h: "msgChan c1 = Some 0 \<and> buf (msgChans (w_parked m1 [m2, m3]) 0) \<noteq> [] \<and>
    (\<forall>m \<in> set (pending (msgChans (w_parked m1 [m2, m3]) 0)). 0 \<le> Level m \<and> Level m \<le> 4)"
    by (simp add: c1_def w_parked_def pending_def m1_def m2_def m3_def)
  with Flush_drains_queue [of c1 "w_parked m1 [m2, m3]" 0]
  have "Flush c1 (w_parked m1 [m2, m3]) = Return () (render_all (pending (msgChans (w_parked m1 [m2, m3]) 0))
          ((w_parked m1 [m2, m3])\<lparr>msgChans := (msgChans (w_parked m1 [m2, m3]))
              (0 := (msgChans (w_parked m1 [m2, m3]) 0)\<lparr>buf := [], sendq := []\<rparr>)\<rparr>))"
    by blast
  then have 1: "Flush c1 (w_parked m1 [m2, m3]) =
     Return () (w0\<lparr>msgChans := (msgChans w0)(0 := \<lparr>cap = 1, buf = [], sendq = [], closed = False\<rparr>),
                  out := [entry w0 m1, entry w0 m2, entry w0 m3]\<rparr>)"
    by (simp add: w_parked_def render_all_def pending_def w0_def init_world_def entry_def)
  have e: "msgChan c1 = Some 0 \<and> buf (msgChans (w_queue []) 0) = []"
    by (simp add: c1_def w_queue_def)
  with Flush_drains_queue [of c1 "w_queue []" 0]
  have 2: "Flush c1 (w_queue []) = Return () (w_queue [])" by blast
  have 3: "buf (msgChans (w_parked m1 [m2, m3]) 0) = [m1]" by (simp add: w_parked_def)
  from 1 2 3 show ?thesis by blast
qed

section \<open>The consume loop\<close>
lemma chan_recv_pending:
  "chan_recv ch = Recv m ch' \<Longrightarrow> pending ch = m # pending ch'"
  by (auto simp: chan_recv_def pending_def split: list.splits if_splits)

lemma Start_fifo_aux:
  "msgChan c = Some r \<Longrightarrow>
   \<exists>k j. out (state_of (Start c es w)) =
            out w @ (if outFails w then [] else map (entry w) (take k (pending (msgChans w r)))) \<and>
         pending (msgChans (state_of (Start c es w)) r) = drop j (pending (msgChans w r)) \<and>
         k \<le> j \<and> j \<le> Suc k \<and> j \<le> length (pending (msgChans w r)) \<and>
         ((\<exists>p s. Start c es w = Panicked p s) \<or> j = k)"
proof (induction es arbitrary: w)
  case Nil
  show ?case by (intro exI [of _ 0]) simp
next
  case (Cons e es)
  note r = Cons.prems
  have same: "\<exists>k j. out (state_of (Start c es w)) =
            out w @ (if outFails w then [] else map (entry w) (take k (pending (msgChans w r)))) \<and>
         pending (msgChans (state_of (Start c es w)) r) = drop j (pending (msgChans w r)) \<and>
         k \<le> j \<and> j \<le> Suc k \<and> j \<le> length (pending (msgChans w r)) \<and>
         ((\<exists>p s. Start c es w = Panicked p s) \<or> j = k)"
    by (rule Cons.IH [OF r])
  show ?case
  proof (cases e)
    case CaseMsg
    show ?thesis
    proof (cases "chan_recv (msgChans w r)")
      case (Recv m ch)
      let ?w1 = "w\<lparr>msgChans := (msgChans w)(r := ch)\<rparr>"
      have pend: "pending (msgChans w r) = m # pending ch"
        by (rule chan_recv_pending [OF Recv])
      show ?thesis
      proof (cases "0 \<le> Level m \<and> Level m \<le> 4")
        case True
        let ?w2 = "render_all [m] ?w1"
        have wr: "console_write c m ?w1 = Return () ?w2"
          using True by (rule console_write_render)
        have st: "Start c (e # es) w = Start c es ?w2"
          using CaseMsg r Recv wr by simp
        from Cons.IH [OF r, of ?w2] obtain k j where
          o: "out (state_of (Start c es ?w2)) =
            out ?w2 @ (if outFails ?w2 then [] else map (entry ?w2) (take k (pending (msgChans ?w2 r))))"
          and p: "pending (msgChans (state_of (Start c es ?w2)) r) = drop j (pending (msgChans ?w2 r))"
          and kj: "k \<le> j" "j \<le> Suc k" "j \<le> length (pending (msgChans ?w2 r))"
             "(\<exists>p s. Start c es ?w2 = Panicked p s) \<or> j = k"
          by blast
        have e1: "entry ?w1 = entry w" by (rule ext) (simp add: entry_def)
        have "out (state_of (Start c (e # es) w)) =
            out w @ (if outFails w then [] else map (entry w) (take (Suc k) (pending (msgChans w r))))"
          using o by (simp add: st pend e1 render_all_simps del: state_of.simps)
        moreover have "pending (msgChans (state_of (Start c (e # es) w)) r) = drop (Suc j) (pending (msgChans w r))"
          using p by (simp add: st pend render_all_simps del: state_of.simps)
        moreover have "Suc j \<le> length (pending (msgChans w r))"
          using kj(3) by (simp add: pend render_all_simps)
        moreover have "(\<exists>p s. Start c (e # es) w = Panicked p s) \<or> Suc j = Suc k"
          using kj(4) by (simp only: st) blast
        ultimately show ?thesis using kj(1,2)
          by (intro exI [of _ "Suc k"] exI [of _ "Suc j"]) simp
      next
        case False
        have wr: "console_write c m ?w1 = Panicked ''index out of range'' ?w1"
          using False by (simp add: console_write_eq)
        have st: "Start c (e # es) w = Panicked ''index out of range'' ?w1"
          using CaseMsg r Recv wr by simp
        show ?thesis
          by (intro exI [of _ 0] exI [of _ "Suc 0"]) (simp add: st pend)
      qed
    next
      case RecvClosed
      then have "Start c (e # es) w = Panicked ''nil pointer dereference'' w"
        using CaseMsg r by simp
      then show ?thesis by (intro exI [of _ 0]) simp
    next
      case RecvBlock
      then have "Start c (e # es) w = Start c es w" using CaseMsg r by simp
      with same show ?thesis by simp
    qed
  next
    case CaseQuit
    show ?thesis
    proof (cases "quitChan c")
      case None
      then have "Start c (e # es) w = Start c es w" using CaseQuit by simp
      with same show ?thesis by simp
    next
      case (Some q)
      show ?thesis
      proof (cases "chan_recv (quitChans w q)")
        case (Recv u ch)
        then have "Start c (e # es) w = Return () (w\<lparr>quitChans := (quitChans w)(q := ch)\<rparr>)"
          using CaseQuit Some by simp
        then show ?thesis by (intro exI [of _ 0]) simp
      next
        case RecvClosed
        then have "Start c (e # es) w = Return () w" using CaseQuit Some by simp
        then show ?thesis by (intro exI [of _ 0]) simp
      next
        case RecvBlock
        then have "Start c (e # es) w = Start c es w" using CaseQuit Some by simp
        with same show ?thesis by simp
      qed
    qed
  qed
qed

lemma Start_append:
  "Start c (es1 @ es2) w =
     (case Start c es1 w of
        Blocked w' \<Rightarrow> Start c es2 w'
      | Return u w' \<Rightarrow> Return u w'
      | Panicked p w' \<Rightarrow> Panicked p w')"
proof (induction es1 arbitrary: w)
  case Nil
  show ?case by simp
next
  case (Cons e es1)
  show ?case
  proof (cases e)
    case CaseMsg
    show ?thesis
    proof (cases "msgChan c")
      case None
      then show ?thesis using CaseMsg Cons.IH by simp
    next
      case (Some r)
      show ?thesis
      proof (cases "chan_recv (msgChans w r)")
        case (Recv m ch)
        then show ?thesis using CaseMsg Some Cons.IH
          by (cases "console_write c m (w\<lparr>msgChans := (msgChans w)(r := ch)\<rparr>)")
             (simp_all add: console_write_not_Blocked)
      next
        case RecvClosed
        then show ?thesis using CaseMsg Some by simp
      next
        case RecvBlock
        then show ?thesis using CaseMsg Some Cons.IH by simp
      qed
    qed
  next
    case CaseQuit
    show ?thesis
    proof (cases "quitChan c")
      case None
      then show ?thesis using CaseQuit Cons.IH by simp
    next
      case (Some q)
      then show ?thesis using CaseQuit Cons.IH
        by (cases "chan_recv (quitChans w q)") simp_all
    qed
  qed
qed

lemma Start_quit:
  "quitChan c = Some q \<Longrightarrow> chan_recv (quitChans w q) \<noteq> RecvBlock \<Longrightarrow>
   \<exists>w'. Start c (CaseQuit # es) w = Return () w' \<and> msgChans w' = msgChans w \<and> out w' = out w"
  by (cases "chan_recv (quitChans w q)") simp_all

lemma chan_send_pending:
  "chan_send m ch = Sent ch' \<Longrightarrow> pending ch' = pending ch @ [m]"
  by (auto simp: chan_send_def pending_def split: if_splits)

lemma entry_frame: "frame w w' \<Longrightarrow> entry w' = entry w"
  by (rule ext) (simp add: frame_def entry_def)

lemma take_prefix_add:
  "k \<le> length xs \<Longrightarrow> take k xs @ take k' (drop k xs @ ys) = take (k + k') (xs @ ys)"
proof -
  assume k: "k \<le> length xs"
  have "take (k + k') (xs @ ys) = take k (xs @ ys) @ take k' (drop k (xs @ ys))"
    by (rule take_add)
  also have "\<dots> = take k xs @ take k' (drop k xs @ ys)" using k by simp
  finally show ?thesis by simp
qed

lemma serve_fifo:
  "msgChan c = Some r \<Longrightarrow>
   \<exists>k. k \<le> length (pending (msgChans w r) @ produced ss) \<and>
       out (state_of (serve c ss w)) =
         out w @ (if outFails w then []
                  else map (entry w) (take k (pending (msgChans w r) @ produced ss)))"
proof (induction ss arbitrary: w)
  case Nil
  show ?case by (intro exI [of _ 0]) simp
next
  case (Cons s ss)
  note r = Cons.prems
  show ?case
  proof (cases s)
    case (Produce m)
    show ?thesis
    proof (cases "chan_send m (msgChans w r)")
      case (Sent ch)
      let ?w1 = "w\<lparr>msgChans := (msgChans w)(r := ch)\<rparr>"
      have st: "serve c (s # ss) w = serve c ss ?w1" using Produce r Sent by simp
      have pend: "pending ch = pending (msgChans w r) @ [m]"
        by (rule chan_send_pending [OF Sent])
      have e1: "entry ?w1 = entry w" by (rule ext) (simp add: entry_def)
      have al: "pending (msgChans ?w1 r) @ produced ss = pending (msgChans w r) @ produced (s # ss)"
        using pend Produce by simp
      from Cons.IH [OF r, of ?w1] obtain k where
        kle: "k \<le> length (pending (msgChans ?w1 r) @ produced ss)"
        and o: "out (state_of (serve c ss ?w1)) =
           out ?w1 @ (if outFails ?w1 then []
                  else map (entry ?w1) (take k (pending (msgChans ?w1 r) @ produced ss)))"
        by blast
      from o have "out (state_of (serve c (s # ss) w)) =
           out w @ (if outFails w then []
                  else map (entry w) (take k (pending (msgChans w r) @ produced (s # ss))))"
        unfolding al e1 st by simp
      moreover from kle have "k \<le> length (pending (msgChans w r) @ produced (s # ss))"
        unfolding al .
      ultimately show ?thesis by blast
    next
      case SendPanic
      then have "serve c (s # ss) w = Panicked ''send on closed channel'' w"
        using Produce r by simp
      then show ?thesis by (intro exI [of _ 0]) simp
    qed
  next
    case (Select e)
    from Start_fifo_aux [OF r, of "[e]" w] obtain k j where
      o: "out (state_of (Start c [e] w)) =
            out w @ (if outFails w then [] else map (entry w) (take k (pending (msgChans w r))))"
      and p: "pending (msgChans (state_of (Start c [e] w)) r) = drop j (pending (msgChans w r))"
      and kj: "k \<le> j" "j \<le> length (pending (msgChans w r))"
      and pj: "(\<exists>p s. Start c [e] w = Panicked p s) \<or> j = k"
      by blast
    have fr: "frame w (state_of (Start c [e] w))" by (rule Start_frame)
    have fin: "serve c (s # ss) w = Start c [e] w \<Longrightarrow> ?thesis"
      using o kj by (intro exI [of _ k]) simp
    show ?thesis
    proof (cases "Start c [e] w")
      case (Return u w')
      then have "serve c (s # ss) w = Start c [e] w" using Select by simp
      then show ?thesis by (rule fin)
    next
      case (Panicked q w')
      then have "serve c (s # ss) w = Start c [e] w" using Select by simp
      then show ?thesis by (rule fin)
    next
      case (Blocked w')
      then have st: "serve c (s # ss) w = serve c ss w'" using Select by simp
      from Blocked pj have jk: "j = k" by simp
      from Blocked o have o': "out w' = out w @ (if outFails w then [] else map (entry w) (take k (pending (msgChans w r))))"
        by simp
      from Blocked p jk have p': "pending (msgChans w' r) = drop k (pending (msgChans w r))"
        by simp
      from Blocked fr have fr': "frame w w'" by simp
      then have e': "entry w' = entry w" by (rule entry_frame)
      from fr' have of': "outFails w' = outFails w" by (simp add: frame_def)
      from Cons.IH [OF r, of w'] obtain k' where
        k': "k' \<le> length (pending (msgChans w' r) @ produced ss)"
        and o2: "out (state_of (serve c ss w')) =
           out w' @ (if outFails w' then []
                  else map (entry w') (take k' (pending (msgChans w' r) @ produced ss)))"
        by blast
      have tk: "take k (pending (msgChans w r)) @ take k' (drop k (pending (msgChans w r)) @ produced ss)
                  = take (k + k') (pending (msgChans w r) @ produced ss)"
        by (rule take_prefix_add) (use kj jk in simp)
      have o3: "out (state_of (serve c ss w')) =
         out w @ (if outFails w then []
                  else map (entry w) (take k (pending (msgChans w r)) @
                         take k' (drop k (pending (msgChans w r)) @ produced ss)))"
        using o2 unfolding o' p' e' of' by simp
      have ps: "produced (s # ss) = produced ss" using Select by simp
      have "out (state_of (serve c (s # ss) w)) =
         out w @ (if outFails w then []
                  else map (entry w) (take (k + k') (pending (msgChans w r) @ produced (s # ss))))"
        unfolding st ps tk [symmetric] using o3 .
      moreover have "k + k' \<le> length (pending (msgChans w r) @ produced (s # ss))"
        using k' kj jk by (simp add: p' Select)
      ultimately show ?thesis by (intro exI [of _ "k + k'"]) simp
    qed
  qed
qed

lemma serve_Select: "serve c (map Select es) w = Start c es w"
proof (induction es arbitrary: w)
  case Nil
  show ?case by simp
next
  case (Cons e es)
  have "Start c (e # es) w = Start c ([e] @ es) w" by simp
  also have "\<dots> = (case Start c [e] w of
        Blocked w' \<Rightarrow> Start c es w'
      | Return u w' \<Rightarrow> Return u w'
      | Panicked p w' \<Rightarrow> Panicked p w')"
    by (rule Start_append)
  finally show ?case using Cons.IH
    by (cases "Start c [e] w") simp_all
qed

lemma Start_sample:
  "Start c1 [CaseMsg, CaseMsg] (w_queue [m1, m2, m3]) =
     Blocked ((w_queue [m3])\<lparr>out := [entry w0 m1, entry w0 m2]\<rparr>)"
  by (simp add: c1_def w_queue_def chan_recv_def console_write_eq m1_def m2_def m3_def
        w0_def init_world_def entry_def)

lemma serve_sample:
  "serve c1 [Select CaseMsg, Produce m3, Select CaseMsg, Produce m2, Select CaseMsg, Select CaseMsg]
     (w_queue [m1])
   = Blocked ((w_queue [])\<lparr>out := [entry w0 m1, entry w0 m3, entry w0 m2]\<rparr>)"
  by (simp add: c1_def w_queue_def chan_recv_def chan_send_def console_write_eq m1_def m2_def m3_def
        w0_def init_world_def entry_def)

text \<open>
  C4. The entries the loop writes are those of a prefix of the messages sent to its inbound
  channel, in the order of their arrival, also when producers send while it runs; what it
  has not rendered stays pending in that order (a message at which \<open>write\<close> panics is
  consumed and not rendered). When the loop waits and takes the quit case with a signal
  available, it returns without a further receive from the inbound channel and without a
  write, whatever is pending and whatever would be chosen next.
\<close>
theorem Start_fifo_and_quit:
  "(msgChan c = Some r \<longrightarrow>
      (\<exists>k. k \<le> length (pending (msgChans w r) @ produced ss) \<and>
           out (state_of (serve c ss w)) =
             out w @ (if outFails w then []
                      else map (entry w) (take k (pending (msgChans w r) @ produced ss))))) \<and>
   serve c (map Select es) w = Start c es w \<and>
   (msgChan c = Some r \<longrightarrow>
      (\<exists>k j. out (state_of (Start c es w)) =
            out w @ (if outFails w then [] else map (entry w) (take k (pending (msgChans w r)))) \<and>
         pending (msgChans (state_of (Start c es w)) r) = drop j (pending (msgChans w r)) \<and>
         k \<le> j \<and> j \<le> Suc k \<and> j \<le> length (pending (msgChans w r)) \<and>
         ((\<exists>p s. Start c es w = Panicked p s) \<or> j = k))) \<and>
   (Start c pre w = Blocked w1 \<and> quitChan c = Some q \<and> chan_recv (quitChans w1 q) \<noteq> RecvBlock \<longrightarrow>
      (\<exists>w2. Start c (pre @ CaseQuit # post) w = Return () w2 \<and>
            msgChans w2 = msgChans w1 \<and> out w2 = out w1))"
proof (intro conjI impI)
  assume "msgChan c = Some r"
  then show "\<exists>k. k \<le> length (pending (msgChans w r) @ produced ss) \<and>
           out (state_of (serve c ss w)) =
             out w @ (if outFails w then []
                      else map (entry w) (take k (pending (msgChans w r) @ produced ss)))"
    by (rule serve_fifo)
next
  show "serve c (map Select es) w = Start c es w" by (rule serve_Select)
next
  assume "msgChan c = Some r"
  then show "\<exists>k j. out (state_of (Start c es w)) =
            out w @ (if outFails w then [] else map (entry w) (take k (pending (msgChans w r)))) \<and>
         pending (msgChans (state_of (Start c es w)) r) = drop j (pending (msgChans w r)) \<and>
         k \<le> j \<and> j \<le> Suc k \<and> j \<le> length (pending (msgChans w r)) \<and>
         ((\<exists>p s. Start c es w = Panicked p s) \<or> j = k)"
    by (rule Start_fifo_aux)
next
  assume a: "Start c pre w = Blocked w1 \<and> quitChan c = Some q \<and> chan_recv (quitChans w1 q) \<noteq> RecvBlock"
  then have "Start c (pre @ CaseQuit # post) w = Start c (CaseQuit # post) w1"
    by (simp add: Start_append)
  moreover from a have "quitChan c = Some q" "chan_recv (quitChans w1 q) \<noteq> RecvBlock"
    by simp_all
  then have "\<exists>w'. Start c (CaseQuit # post) w1 = Return () w' \<and> msgChans w' = msgChans w1 \<and> out w' = out w1"
    by (rule Start_quit)
  ultimately show "\<exists>w2. Start c (pre @ CaseQuit # post) w = Return () w2 \<and>
            msgChans w2 = msgChans w1 \<and> out w2 = out w1"
    by simp
qed

theorem Start_fifo_and_quit_witness:
  "Start c1 [CaseMsg, CaseMsg] (w_queue [m1, m2, m3]) =
     Blocked ((w_queue [m3])\<lparr>out := [entry w0 m1, entry w0 m2]\<rparr>) \<and>
   (\<exists>w2. Start c1 ([CaseMsg, CaseMsg] @ CaseQuit # [CaseMsg]) (w_queue [m1, m2, m3]) = Return () w2 \<and>
      pending (msgChans w2 0) = [m3] \<and> out w2 = [entry w0 m1, entry w0 m2]) \<and>
   serve c1 [Select CaseMsg, Produce m3, Select CaseMsg, Produce m2, Select CaseMsg, Select CaseMsg]
     (w_queue [m1])
   = Blocked ((w_queue [])\<lparr>out := [entry w0 m1, entry w0 m3, entry w0 m2]\<rparr>)"
proof -
  let ?w1 = "(w_queue [m3])\<lparr>out := [entry w0 m1, entry w0 m2]\<rparr>"
  have q: "msgChan c1 = Some 0" "quitChan c1 = Some 1 \<and> chan_recv (quitChans ?w1 1) \<noteq> RecvBlock"
    by (simp_all add: c1_def w_queue_def chan_recv_def)
  from Start_fifo_and_quit [of c1 0 "w_queue [m1, m2, m3]" "[]" "[]" "[CaseMsg, CaseMsg]" ?w1 1 "[CaseMsg]"]
    Start_sample q
  obtain w2 where "Start c1 ([CaseMsg, CaseMsg] @ CaseQuit # [CaseMsg]) (w_queue [m1, m2, m3]) = Return () w2"
    "msgChans w2 = msgChans ?w1" "out w2 = out ?w1"
    by blast
  then have "Start c1 ([CaseMsg, CaseMsg] @ CaseQuit # [CaseMsg]) (w_queue [m1, m2, m3]) = Return () w2 \<and>
      pending (msgChans w2 0) = [m3] \<and> out w2 = [entry w0 m1, entry w0 m2]"
    by (simp add: w_queue_def pending_def)
  with Start_sample serve_sample show ?thesis by blast
qed

section \<open>The registry\<close>
lemma lift_factories: "factories (state_of (lift s x)) = factories s"
  by (cases x) simp_all

lemma lift_receivers: "receivers (state_of (lift s x)) = receivers s"
  by (cases x) simp_all


lemma close_keeps:
  "factories (state_of (close r s)) = factories s \<and> receivers (state_of (close r s)) = receivers s"
proof (cases "r_quitChan r")
  case None
  then show ?thesis by (simp add: close_def)
next
  case (Some q)
  show ?thesis
  proof (cases "Flush (Logger r) (env s)")
    case (Return u w)
    then show ?thesis using Some
      by (simp add: close_def Let_def lift_factories lift_receivers)
  next
    case (Panicked p w)
    then show ?thesis using Some by (simp add: close_def Let_def)
  next
    case (Blocked w)
    then show ?thesis using Some by (simp add: close_def Let_def)
  qed
qed

lemma replace_loop_keeps:
  "factories (state_of (replace_loop md lg mc qc i s)) = factories s \<and>
   map mode (receivers (state_of (replace_loop md lg mc qc i s))) = map mode (receivers s)"
proof (induction md lg mc qc i s rule: replace_loop.induct)
  case (1 md lg mc qc i s)
  show ?case
  proof (cases "i < length (receivers s)")
    case False
    then show ?thesis by (simp add: replace_loop.simps [of md lg mc qc i s])
  next
    case True
    show ?thesis
    proof (cases "mode (receivers s ! i) = md")
      case False
      with True "1.IH" show ?thesis by (simp add: replace_loop.simps [of md lg mc qc i s])
    next
      case md: True
      from close_keeps [of "receivers s ! i" s]
      have k: "factories (state_of (close (receivers s ! i) s)) = factories s"
        "receivers (state_of (close (receivers s ! i) s)) = receivers s" by simp_all
      show ?thesis
      proof (cases "close (receivers s ! i) s")
        case (Return u s')
        with k have "factories s' = factories s" "receivers s' = receivers s" by simp_all
        then show ?thesis using True md Return
          by (simp add: replace_loop.simps [of md lg mc qc i s] map_update list_update_same_conv)
      next
        case (Panicked p s')
        with k show ?thesis using True md
          by (simp add: replace_loop.simps [of md lg mc qc i s])
      next
        case (Blocked s')
        with k show ?thesis using True md
          by (simp add: replace_loop.simps [of md lg mc qc i s])
      qed
    qed
  qed
qed

lemma replace_loop_False:
  "replace_loop md lg mc qc i s = Return False s' \<Longrightarrow>
   s' = s \<and> (\<forall>j. i \<le> j \<and> j < length (receivers s) \<longrightarrow> mode (receivers s ! j) \<noteq> md)"
proof (induction md lg mc qc i s rule: replace_loop.induct)
  case (1 md lg mc qc i s)
  show ?case
  proof (cases "i < length (receivers s)")
    case False
    with "1.prems" show ?thesis by (auto simp: replace_loop.simps [of md lg mc qc i s])
  next
    case True
    show ?thesis
    proof (cases "mode (receivers s ! i) = md")
      case False
      with True "1.prems" have "replace_loop md lg mc qc (Suc i) s = Return False s'"
        by (simp add: replace_loop.simps [of md lg mc qc i s])
      from "1.IH" [OF True False this]
      have "s' = s" and rest: "\<forall>j. Suc i \<le> j \<and> j < length (receivers s) \<longrightarrow> mode (receivers s ! j) \<noteq> md"
        by simp_all
      moreover have "\<And>j. i \<le> j \<Longrightarrow> j < length (receivers s) \<Longrightarrow> mode (receivers s ! j) \<noteq> md"
      proof -
        fix j assume "i \<le> j" "j < length (receivers s)"
        then show "mode (receivers s ! j) \<noteq> md"
          using rest False by (cases "j = i") auto
      qed
      ultimately show ?thesis by blast
    next
      case md: True
      with True "1.prems" show ?thesis
        by (cases "close (receivers s ! i) s") (simp_all add: replace_loop.simps [of md lg mc qc i s])
    qed
  qed
qed


lemma Init_error_same:
  "Init lg cfg w1 = Return (Some err, lg') w2 \<Longrightarrow> w2 = w1 \<and> lg' = lg"
  by (cases cfg) (auto simp: Init_def split: if_splits)

lemma NewLogger_unknown:
  "factories s md = None \<Longrightarrow> NewLogger md cfg s = Return (Some (ErrUnknownMode md)) s"
  by (simp add: NewLogger_def)

lemma NewLogger_Init_error:
  "factories s md = Some (Some f) \<Longrightarrow> f (env s) = (lg, w1) \<Longrightarrow>
   Init lg cfg w1 = Return (Some err, lg') w2 \<Longrightarrow>
   NewLogger md cfg s = Return (Some (ErrFailToInitialize err)) (s\<lparr>env := w2\<rparr>)"
  by (simp add: NewLogger_def)

text \<open>The continuation of \<open>NewLogger\<close> once the new adapter is initialised.\<close>
lemma NewLogger_Init_ok:
  "factories s md = Some (Some f) \<Longrightarrow> f (env s) = (lg, w1) \<Longrightarrow>
   Init lg cfg w1 = Return (None, lg1) w2 \<Longrightarrow>
   NewLogger md cfg s =
     (case replace_loop md (lg1\<lparr>errorChan := Some errorChan0\<rparr>) (msgChan lg1) (quitChan lg1) 0
             (s\<lparr>env := w2\<rparr>) of
        Return hasFound s3 \<Rightarrow>
          Return None
            (if hasFound then s3\<lparr>trace := trace s3 @ [EvStart (lg1\<lparr>errorChan := Some errorChan0\<rparr>)]\<rparr>
             else s3\<lparr>receivers := receivers s3 @
                        [\<lparr>Logger = lg1\<lparr>errorChan := Some errorChan0\<rparr>, mode = md,
                          r_msgChan = msgChan lg1, r_quitChan = quitChan lg1\<rparr>],
                      trace := trace s3 @ [EvAppend, EvStart (lg1\<lparr>errorChan := Some errorChan0\<rparr>)]\<rparr>)
      | Panicked p s3 \<Rightarrow> Panicked p s3
      | Blocked s3 \<Rightarrow> Blocked s3)"
  by (simp add: NewLogger_def ExchangeChans_def Let_def split: outcome.splits)

text \<open>Every way in which \<open>NewLogger\<close> can end.\<close>
lemma NewLogger_cases:
  obtains
    (unknown) "factories s md = None"
  | (nil) "factories s md = Some None"
  | (init_error) f lg w1 err lg' w2 where
      "factories s md = Some (Some f)" "f (env s) = (lg, w1)"
      "Init lg cfg w1 = Return (Some err, lg') w2"
  | (init_panic) f lg w1 p w2 where
      "factories s md = Some (Some f)" "f (env s) = (lg, w1)" "Init lg cfg w1 = Panicked p w2"
  | (init_blocked) f lg w1 w2 where
      "factories s md = Some (Some f)" "f (env s) = (lg, w1)" "Init lg cfg w1 = Blocked w2"
  | (init_ok) f lg w1 lg1 w2 where
      "factories s md = Some (Some f)" "f (env s) = (lg, w1)"
      "Init lg cfg w1 = Return (None, lg1) w2"
proof (cases "factories s md")
  case None
  then show ?thesis by (rule unknown)
next
  case (Some fo)
  show ?thesis
  proof (cases fo)
    case None
    with Some show ?thesis by (intro nil) simp
  next
    case (Some f)
    obtain lg w1 where f: "f (env s) = (lg, w1)" by (cases "f (env s)")
    have fs: "factories s md = Some (Some f)"
      using Some \<open>factories s md = Some fo\<close> by simp
    show ?thesis
    proof (cases "Init lg cfg w1")
      case (Return x w2)
      obtain eo lg1 where x: "x = (eo, lg1)" by (cases x)
      show ?thesis
      proof (cases eo)
        case None
        with Return x show ?thesis by (intro init_ok [OF fs f]) simp
      next
        case (Some err)
        with Return x show ?thesis by (intro init_error [OF fs f]) simp
      qed
    next
      case (Panicked p w2)
      then show ?thesis by (intro init_panic [OF fs f])
    next
      case (Blocked w2)
      then show ?thesis by (intro init_blocked [OF fs f])
    qed
  qed
qed

lemma NewLogger_keeps:
  "factories (state_of (NewLogger md cfg s)) = factories s \<and>
   (distinct (map mode (receivers s)) \<longrightarrow>
      distinct (map mode (receivers (state_of (NewLogger md cfg s)))))"
proof (cases rule: NewLogger_cases [where s = s and md = md and cfg = cfg])
  case unknown
  then show ?thesis by (simp add: NewLogger_def)
next
  case nil
  then show ?thesis by (simp add: NewLogger_def)
next
  case (init_error f lg w1 err lg' w2)
  then show ?thesis by (simp add: NewLogger_def)
next
  case (init_panic f lg w1 p w2)
  then show ?thesis by (simp add: NewLogger_def)
next
  case (init_blocked f lg w1 w2)
  then show ?thesis by (simp add: NewLogger_def)
next
  case (init_ok f lg w1 lg1 w2)
  let ?lg2 = "lg1\<lparr>errorChan := Some errorChan0\<rparr>"
  let ?s2 = "s\<lparr>env := w2\<rparr>"
  let ?r = "replace_loop md ?lg2 (msgChan lg1) (quitChan lg1) 0 ?s2"
  note nl = NewLogger_Init_ok [OF init_ok]
  from replace_loop_keeps [of md ?lg2 "msgChan lg1" "quitChan lg1" 0 ?s2]
  have k: "factories (state_of ?r) = factories s"
    "map mode (receivers (state_of ?r)) = map mode (receivers s)" by simp_all
  show ?thesis
  proof (cases ?r)
    case (Return b s3)
    show ?thesis
    proof (cases b)
      case True
      with Return k show ?thesis by (simp add: nl)
    next
      case False
      with Return replace_loop_False [of md ?lg2 "msgChan lg1" "quitChan lg1" 0 ?s2 s3]
      have "\<forall>j. j < length (receivers s) \<longrightarrow> mode (receivers s ! j) \<noteq> md" by simp
      then have "md \<notin> set (map mode (receivers s))"
        by (auto simp: in_set_conv_nth)
      with Return False k show ?thesis by (simp add: nl)
    qed
  next
    case (Panicked p s3)
    with k show ?thesis by (simp add: nl)
  next
    case (Blocked s3)
    with k show ?thesis by (simp add: nl)
  qed
qed

lemma Register_no_nil: "no_nil_factory s \<Longrightarrow> no_nil_factory (state_of (Register md f s))"
  by (auto simp: Register_def no_nil_factory_def split: option.splits)

lemma apply_op_no_nil: "no_nil_factory s \<Longrightarrow> no_nil_factory (apply_op x s)"
proof (cases x)
  case (OpRegister md f)
  assume "no_nil_factory s"
  then show ?thesis using OpRegister by (simp add: Register_no_nil)
next
  case (OpNewLogger md cfg)
  assume "no_nil_factory s"
  then show ?thesis using OpNewLogger NewLogger_keeps [of md cfg s]
    by (simp add: no_nil_factory_def)
qed

lemma apply_ops_no_nil: "no_nil_factory s \<Longrightarrow> no_nil_factory (apply_ops ops s)"
  by (induction ops arbitrary: s) (simp_all add: apply_op_no_nil)

lemma init_clog_no_nil: "no_nil_factory (init_clog w)"
  by (simp add: no_nil_factory_def init_clog_def)

lemma Register_panics:
  "(\<exists>p s'. Register md f s = Panicked p s') \<longleftrightarrow>
     (f = None \<or> (\<exists>g. factories s md = Some (Some g)))"
  by (auto simp: Register_def split: option.splits)

lemma apply_op_keeps_factory:
  assumes "no_nil_factory s" and "factories s md = Some g"
  shows "factories (apply_op x s) md = Some g"
proof (cases x)
  case (OpRegister md' f)
  show ?thesis
  proof (cases "md' = md")
    case True
    from assms obtain h where "g = Some h"
      by (cases g) (auto simp: no_nil_factory_def)
    with assms True OpRegister show ?thesis by (simp add: Register_def)
  next
    case False
    with assms OpRegister show ?thesis
      by (auto simp: Register_def split: option.splits)
  qed
next
  case (OpNewLogger md' cfg)
  with assms NewLogger_keeps [of md' cfg s] show ?thesis by simp
qed

text \<open>
  C7. In every state the package can reach, \<open>Register\<close> panics exactly when the factory
  is nil or the mode is already registered; otherwise it stores the factory under the mode;
  and no operation overwrites or removes a stored factory.
\<close>
theorem Register_panics_iff:
  assumes "s = apply_ops ops (init_clog w)"
  shows "((\<exists>p s'. Register md f s = Panicked p s') \<longleftrightarrow> (f = None \<or> md \<in> dom (factories s))) \<and>
         (f \<noteq> None \<and> md \<notin> dom (factories s) \<longrightarrow>
            Register md f s = Return () (s\<lparr>factories := (factories s)(md \<mapsto> f)\<rparr>)) \<and>
         (\<forall>g x. factories s md = Some g \<longrightarrow> factories (apply_op x s) md = Some g)"
proof -
  have nn: "no_nil_factory s"
    unfolding assms by (rule apply_ops_no_nil [OF init_clog_no_nil])
  have reg: "md \<in> dom (factories s) \<longleftrightarrow> (\<exists>g. factories s md = Some (Some g))"
  proof
    assume "md \<in> dom (factories s)"
    then obtain fo where fo: "factories s md = Some fo" by auto
    with nn obtain g where "fo = Some g" by (cases fo) (auto simp: no_nil_factory_def)
    with fo show "\<exists>g. factories s md = Some (Some g)" by simp
  next
    assume "\<exists>g. factories s md = Some (Some g)"
    then show "md \<in> dom (factories s)" by auto
  qed
  have a: "(\<exists>p s'. Register md f s = Panicked p s') \<longleftrightarrow> (f = None \<or> md \<in> dom (factories s))"
    unfolding reg by (rule Register_panics)
  have b: "f \<noteq> None \<and> md \<notin> dom (factories s) \<longrightarrow>
            Register md f s = Return () (s\<lparr>factories := (factories s)(md \<mapsto> f)\<rparr>)"
    by (auto simp: Register_def dom_def)
  have c: "\<forall>g x. factories s md = Some g \<longrightarrow> factories (apply_op x s) md = Some g"
    using nn by (auto intro: apply_op_keeps_factory)
  from a b c show ?thesis by blast
qed

theorem Register_panics_iff_witness:
  "loaded w0 = apply_ops [OpRegister CONSOLE (Some newConsole)] (init_clog w0) \<and>
   factories (loaded w0) CONSOLE = Some (Some newConsole) \<and>
   (\<exists>p s'. Register CONSOLE (Some newConsole) (loaded w0) = Panicked p s') \<and>
   Register ''file'' (Some newConsole) (loaded w0)
     = Return () ((loaded w0)\<lparr>factories := (factories (loaded w0))(''file'' \<mapsto> Some newConsole)\<rparr>) \<and>
   factories (apply_op (OpRegister ''file'' (Some newConsole)) (loaded w0)) CONSOLE = Some (Some newConsole)"
proof -
  have l: "loaded w0 = apply_ops [OpRegister CONSOLE (Some newConsole)] (init_clog w0)"
    by (simp add: loaded_def)
  have f: "factories (loaded w0) CONSOLE = Some (Some newConsole)"
    by (simp add: loaded_def Register_def init_clog_def)
  have d: "''file'' \<notin> dom (factories (loaded w0))"
    by (simp add: loaded_def Register_def init_clog_def CONSOLE_def dom_def)
  from f have dm: "CONSOLE \<in> dom (factories (loaded w0))" by (simp add: dom_def)
  from Register_panics_iff [OF l, of CONSOLE "Some newConsole"] dm
  have 1: "\<exists>p s'. Register CONSOLE (Some newConsole) (loaded w0) = Panicked p s'"
    by blast
  from Register_panics_iff [OF l, of CONSOLE "Some newConsole"] f
  have 3: "factories (apply_op (OpRegister ''file'' (Some newConsole)) (loaded w0)) CONSOLE = Some (Some newConsole)"
    by blast
  from Register_panics_iff [OF l, of "''file''" "Some newConsole"] d
  have 2: "Register ''file'' (Some newConsole) (loaded w0)
     = Return () ((loaded w0)\<lparr>factories := (factories (loaded w0))(''file'' \<mapsto> Some newConsole)\<rparr>)"
    by simp
  from l f 1 2 3 show ?thesis by blast
qed

section \<open>Activation\<close>
lemma newConsole_world:
  "newConsole w = (lg, w1) \<Longrightarrow>
     msgChans w1 = msgChans w \<and> out w1 = out w \<and> errChans w1 = errChans w \<and>
     nextMsgChan w1 = nextMsgChan w \<and>
     (\<forall>q. q \<noteq> nextQuitChan w \<longrightarrow> quitChans w1 q = quitChans w q)"
  by (auto simp: newConsole_def)

text \<open>
  C2. When the mode has no factory, or \<open>Init\<close> of the fresh adapter returns an error,
  \<open>NewLogger\<close> returns an error (the \<open>Init\<close> error wrapped) and registry, receiver list
  and trace are as before: no receiver was signalled, flushed or destroyed and no loop was
  started. Every error return of \<open>NewLogger\<close> is one of the two. With the console factory
  the world differs only by the quit channel the fresh adapter allocated.
\<close>
theorem NewLogger_failure_keeps_state:
  "(factories s md = None \<longrightarrow> NewLogger md cfg s = Return (Some (ErrUnknownMode md)) s) \<and>
   (factories s md = Some (Some f) \<and> f (env s) = (lg, w1) \<and>
    Init lg cfg w1 = Return (Some err, lg') w2 \<longrightarrow>
      NewLogger md cfg s = Return (Some (ErrFailToInitialize err)) (s\<lparr>env := w1\<rparr>)) \<and>
   (NewLogger md cfg s = Return (Some e) s' \<longrightarrow>
      factories s' = factories s \<and> receivers s' = receivers s \<and> trace s' = trace s \<and>
      (e = ErrUnknownMode md \<and> factories s md = None \<and> s' = s \<or>
       (\<exists>f lg w1 err. factories s md = Some (Some f) \<and> f (env s) = (lg, w1) \<and>
           Init lg cfg w1 = Return (Some err, lg) w1 \<and>
           e = ErrFailToInitialize err \<and> s' = s\<lparr>env := w1\<rparr>))) \<and>
   (factories s md = Some (Some newConsole) \<and> NewLogger md cfg s = Return (Some e) s' \<longrightarrow>
      msgChans (env s') = msgChans (env s) \<and> out (env s') = out (env s) \<and>
      errChans (env s') = errChans (env s) \<and>
      (\<forall>q. q \<noteq> nextQuitChan (env s) \<longrightarrow> quitChans (env s') q = quitChans (env s) q))"
proof -
  have 1: "factories s md = None \<longrightarrow> NewLogger md cfg s = Return (Some (ErrUnknownMode md)) s"
    by (simp add: NewLogger_unknown)
  have 2: "factories s md = Some (Some f) \<and> f (env s) = (lg, w1) \<and>
    Init lg cfg w1 = Return (Some err, lg') w2 \<longrightarrow>
      NewLogger md cfg s = Return (Some (ErrFailToInitialize err)) (s\<lparr>env := w1\<rparr>)"
  proof
    assume a: "factories s md = Some (Some f) \<and> f (env s) = (lg, w1) \<and>
      Init lg cfg w1 = Return (Some err, lg') w2"
    then have "w2 = w1" using Init_error_same by blast
    with a NewLogger_Init_error [of s md f lg w1 cfg err lg' w2]
    show "NewLogger md cfg s = Return (Some (ErrFailToInitialize err)) (s\<lparr>env := w1\<rparr>)"
      by simp
  qed
  have 3: "NewLogger md cfg s = Return (Some e) s' \<Longrightarrow>
      e = ErrUnknownMode md \<and> factories s md = None \<and> s' = s \<or>
       (\<exists>f lg w1 err. factories s md = Some (Some f) \<and> f (env s) = (lg, w1) \<and>
           Init lg cfg w1 = Return (Some err, lg) w1 \<and>
           e = ErrFailToInitialize err \<and> s' = s\<lparr>env := w1\<rparr>)"
  proof (cases rule: NewLogger_cases [where s = s and md = md and cfg = cfg])
    case unknown
    assume "NewLogger md cfg s = Return (Some e) s'"
    with unknown show ?thesis by (simp add: NewLogger_unknown)
  next
    case nil
    assume "NewLogger md cfg s = Return (Some e) s'"
    with nil show ?thesis by (simp add: NewLogger_def)
  next
    case (init_error f lg w1 err lg' w2)
    assume r: "NewLogger md cfg s = Return (Some e) s'"
    from Init_error_same [OF init_error(3)] have eq: "w2 = w1" "lg' = lg" by simp_all
    from r NewLogger_Init_error [OF init_error]
    have "e = ErrFailToInitialize err" "s' = s\<lparr>env := w1\<rparr>" by (simp_all add: eq)
    with init_error eq show ?thesis by blast
  next
    case (init_panic f lg w1 p w2)
    assume "NewLogger md cfg s = Return (Some e) s'"
    with init_panic show ?thesis by (simp add: NewLogger_def)
  next
    case (init_blocked f lg w1 w2)
    assume "NewLogger md cfg s = Return (Some e) s'"
    with init_blocked show ?thesis by (simp add: NewLogger_def)
  next
    case (init_ok f lg w1 lg1 w2)
    assume "NewLogger md cfg s = Return (Some e) s'"
    with NewLogger_Init_ok [OF init_ok] show ?thesis
      by (simp split: outcome.splits)
  qed
  have 4: "NewLogger md cfg s = Return (Some e) s' \<longrightarrow>
      factories s' = factories s \<and> receivers s' = receivers s \<and> trace s' = trace s \<and>
      (e = ErrUnknownMode md \<and> factories s md = None \<and> s' = s \<or>
       (\<exists>f lg w1 err. factories s md = Some (Some f) \<and> f (env s) = (lg, w1) \<and>
           Init lg cfg w1 = Return (Some err, lg) w1 \<and>
           e = ErrFailToInitialize err \<and> s' = s\<lparr>env := w1\<rparr>))"
    using 3 by auto
  have 5: "factories s md = Some (Some newConsole) \<and> NewLogger md cfg s = Return (Some e) s' \<longrightarrow>
      msgChans (env s') = msgChans (env s) \<and> out (env s') = out (env s) \<and>
      errChans (env s') = errChans (env s) \<and>
      (\<forall>q. q \<noteq> nextQuitChan (env s) \<longrightarrow> quitChans (env s') q = quitChans (env s) q)"
  proof
    assume a: "factories s md = Some (Some newConsole) \<and> NewLogger md cfg s = Return (Some e) s'"
    with 3 obtain lg w1 where "newConsole (env s) = (lg, w1)" "s' = s\<lparr>env := w1\<rparr>"
      by auto
    with newConsole_world [of "env s" lg w1]
    show "msgChans (env s') = msgChans (env s) \<and> out (env s') = out (env s) \<and>
      errChans (env s') = errChans (env s) \<and>
      (\<forall>q. q \<noteq> nextQuitChan (env s) \<longrightarrow> quitChans (env s') q = quitChans (env s) q)"
      by simp
  qed
  from 1 2 4 5 show ?thesis by blast
qed





theorem NewLogger_failure_keeps_state_witness:
  "NewLogger ''file'' cfg_a s_a = Return (Some (ErrUnknownMode ''file'')) s_a \<and>
   NewLogger CONSOLE cfg_bad s_a
     = Return (Some (ErrFailToInitialize ErrInvalidLevel)) (s_a\<lparr>env := snd (newConsole (env s_a))\<rparr>) \<and>
   receivers (s_a\<lparr>env := snd (newConsole (env s_a))\<rparr>) = receivers s_a \<and>
   receivers s_a \<noteq> []"
proof -
  have u: "factories s_a ''file'' = None" by (simp add: s_a_def CONSOLE_def)
  have c: "factories s_a CONSOLE = Some (Some newConsole)" by (simp add: s_a_def)
  have p: "newConsole (env s_a) = (fst (newConsole (env s_a)), snd (newConsole (env s_a)))"
    by simp
  have i: "Init (fst (newConsole (env s_a))) cfg_bad (snd (newConsole (env s_a)))
             = Return (Some ErrInvalidLevel, fst (newConsole (env s_a))) (snd (newConsole (env s_a)))"
    by (simp add: cfg_bad_def Init_def isValidLevel_def)
  from NewLogger_failure_keeps_state [where s = s_a and md = "''file''" and cfg = cfg_a] u
  have 1: "NewLogger ''file'' cfg_a s_a = Return (Some (ErrUnknownMode ''file'')) s_a" by blast
  from NewLogger_failure_keeps_state [where s = s_a and md = CONSOLE and cfg = cfg_bad
      and f = newConsole and lg = "fst (newConsole (env s_a))" and ?w1.0 = "snd (newConsole (env s_a))"
      and err = ErrInvalidLevel and lg' = "fst (newConsole (env s_a))"
      and ?w2.0 = "snd (newConsole (env s_a))"] c p i
  have 2: "NewLogger CONSOLE cfg_bad s_a
     = Return (Some (ErrFailToInitialize ErrInvalidLevel)) (s_a\<lparr>env := snd (newConsole (env s_a))\<rparr>)"
    by blast
  have 3: "receivers s_a \<noteq> []" by (simp add: s_a_def)
  from 1 2 3 show ?thesis by simp
qed








end
